theory Spec2Isabelle
  imports Main
begin

section \<open>The document store\<close>

text \<open>
  The repository keeps its data in three Sequelize tables (\<^verbatim>\<open>models/Document.js\<close>):
  \<^verbatim>\<open>documents\<close>, \<^verbatim>\<open>document_versions\<close> and \<^verbatim>\<open>document_collaborators\<close>.
  A row of \<^verbatim>\<open>documents\<close> is the record \<open>document\<close>; the collaborator relation is
  carried with the row, as \<^verbatim>\<open>include: [{ model: User, as: 'collaborators' }]\<close> loads it.
  \<open>ownerId\<close> is optional: the owner-less route file never writes it, and the guarded
  code compares it with \<^verbatim>\<open>===\<close>, which is false on \<^verbatim>\<open>undefined\<close>.

  Identifiers are the auto-increment integers of the tables (\<^verbatim>\<open>parseInt\<close> of a numeric
  user id is the id itself); contents are the strings of the \<^verbatim>\<open>TEXT\<close> columns.
  The version table is a list in insertion order, which is the order of \<^verbatim>\<open>createdAt\<close>.
\<close>

type_synonym doc_id = nat
type_synonym user_id = nat

record document =
  title :: string
  content :: string
  currentVersion :: nat
  ownerId :: "user_id option"
  collaborators :: "user_id list"

record document_version =
  v_documentId :: doc_id
  v_content :: string
  v_updatedById :: user_id

record store =
  documents :: "doc_id \<rightharpoonup> document"
  document_versions :: "document_version list"
  next_id :: doc_id

definition empty_store :: store where
  "empty_store = \<lparr>documents = Map.empty, document_versions = [], next_id = 0\<rparr>"

text \<open>
  The outcomes of a request. \<open>NotFound\<close> is HTTP 404 (\<^verbatim>\<open>'Document not found'\<close>),
  \<open>AccessDenied\<close> is 403 (\<^verbatim>\<open>'Access denied'\<close>), \<open>OutOfRange\<close> is 400 with
  \<^verbatim>\<open>'Invalid version index'\<close>, \<open>TitleRequired\<close> is 400 with \<^verbatim>\<open>'Title is required'\<close>,
  and \<open>ServerError\<close> is the 500 of a \<^verbatim>\<open>catch\<close> block. \<open>RollbackRefused\<close> is the
  error with which \<^verbatim>\<open>transaction.rollback()\<close> rejects when the transaction has already
  been rolled back.
\<close>

datatype error =
  NotFound | AccessDenied | OutOfRange | TitleRequired | ServerError | RollbackRefused

subsection \<open>Queries on the version table\<close>

text \<open>\<^verbatim>\<open>DocumentVersion.findAll({ where: { documentId }, order: [['createdAt', 'ASC']] })\<close>\<close>

definition findAll_versions :: "store \<Rightarrow> doc_id \<Rightarrow> document_version list" where
  "findAll_versions s docId = filter (\<lambda>v. v_documentId v = docId) (document_versions s)"

text \<open>\<^verbatim>\<open>DocumentVersion.findOne({ where: { documentId }, order: [['createdAt', 'DESC']] })\<close>\<close>

definition findOne_lastVersion :: "store \<Rightarrow> doc_id \<Rightarrow> document_version option" where
  "findOne_lastVersion s docId =
     (case rev (findAll_versions s docId) of [] \<Rightarrow> None | v # _ \<Rightarrow> Some v)"

text \<open>\<^verbatim>\<open>DocumentVersion.count({ where: { documentId } })\<close>\<close>

definition count_versions :: "store \<Rightarrow> doc_id \<Rightarrow> nat" where
  "count_versions s docId = length (findAll_versions s docId)"

text \<open>\<^verbatim>\<open>DocumentVersion.create({ documentId, content, updatedById })\<close>\<close>

definition DocumentVersion_create :: "document_version \<Rightarrow> store \<Rightarrow> store" where
  "DocumentVersion_create v s = s\<lparr>document_versions := document_versions s @ [v]\<rparr>"

text \<open>\<^verbatim>\<open>document.save()\<close>: the row of \<open>docId\<close> is overwritten.\<close>

definition document_save :: "doc_id \<Rightarrow> document \<Rightarrow> store \<Rightarrow> store" where
  "document_save docId d s = s\<lparr>documents := (documents s)(docId \<mapsto> d)\<rparr>"


subsection \<open>The access check\<close>

text \<open>
  \<^verbatim>\<open>document.ownerId === parseInt(userId) || collaboratorIds.includes(parseInt(userId))\<close>,
  written out in \<^verbatim>\<open>server.js\<close> and, negated, in every handler of the guarded routes.
\<close>

definition hasAccess :: "document \<Rightarrow> user_id \<Rightarrow> bool" where
  "hasAccess d userId \<longleftrightarrow> ownerId d = Some userId \<or> userId \<in> set (collaborators d)"

subsection \<open>The snapshot taken before a write\<close>

text \<open>
  Every writer runs the same two statements before it overwrites the content: it reads
  the last version and, \<^verbatim>\<open>if (!lastVersion || lastVersion.content !== document.content)\<close>,
  stores the content that is about to be replaced, attributed to the acting user.
\<close>

definition snapshot_needed :: "document_version option \<Rightarrow> document \<Rightarrow> bool" where
  "snapshot_needed lastVersion d =
     (case lastVersion of None \<Rightarrow> True | Some v \<Rightarrow> v_content v \<noteq> content d)"

definition snapshot_before_write :: "doc_id \<Rightarrow> document \<Rightarrow> user_id \<Rightarrow> store \<Rightarrow> store" where
  "snapshot_before_write docId d userId s =
     (if snapshot_needed (findOne_lastVersion s docId) d
      then DocumentVersion_create
             \<lparr>v_documentId = docId, v_content = content d, v_updatedById = userId\<rparr> s
      else s)"

text \<open>
  The statements after the snapshot: the new content is installed,
  \<^verbatim>\<open>currentVersion\<close> is set to the count of the document's versions, the row is saved.
\<close>

definition install_content :: "doc_id \<Rightarrow> document \<Rightarrow> string \<Rightarrow> store \<Rightarrow> store \<times> document" where
  "install_content docId d newContent s =
     (let versionCount = count_versions s docId;
          d' = d\<lparr>content := newContent, currentVersion := versionCount\<rparr>
      in (document_save docId d' s, d'))"

section \<open>The guarded routes\<close>

text \<open>
  The route file that checks owner and collaborators. Every handler takes the
  authenticated \<^verbatim>\<open>req.userId\<close> and returns the store it leaves together with its
  response; a transaction that is rolled back leaves the store it started from.
\<close>

text \<open>\<^verbatim>\<open>router.post('/')\<close>: a missing or empty title is refused; \<^verbatim>\<open>content || ''\<close>.\<close>

definition post_document ::
  "string \<Rightarrow> string option \<Rightarrow> user_id \<Rightarrow> store \<Rightarrow> store \<times> (error + doc_id \<times> document)" where
  "post_document ttl body userId s =
     (if ttl = [] then (s, Inl TitleRequired)
      else
        let c = (case body of None \<Rightarrow> [] | Some x \<Rightarrow> x);
            docId = next_id s;
            d = \<lparr>title = ttl, content = c, currentVersion = 0,
                 ownerId = Some userId, collaborators = []\<rparr>;
            s1 = s\<lparr>documents := (documents s)(docId \<mapsto> d), next_id := Suc docId\<rparr>;
            s2 = DocumentVersion_create
                   \<lparr>v_documentId = docId, v_content = c, v_updatedById = userId\<rparr> s1
        in (s2, Inr (docId, d)))"

text \<open>\<^verbatim>\<open>router.put('/:id')\<close>\<close>

definition put_document ::
  "doc_id \<Rightarrow> string \<Rightarrow> user_id \<Rightarrow> store \<Rightarrow> store \<times> (error + document)" where
  "put_document docId newContent userId s =
     (case documents s docId of
        None \<Rightarrow> (s, Inl NotFound)
      | Some d \<Rightarrow>
          if ownerId d \<noteq> Some userId \<and> userId \<notin> set (collaborators d)
          then (s, Inl AccessDenied)
          else if content d = newContent then (s, Inr d)
          else
            let s1 = snapshot_before_write docId d userId s;
                (s2, d') = install_content docId d newContent s1
            in (s2, Inr d'))"

text \<open>
  \<^verbatim>\<open>router.post('/:id/revert/:versionIndex')\<close>. The index is \<^verbatim>\<open>parseInt(versionIndex)\<close>:
  an integer, or \<^verbatim>\<open>NaN\<close> (here \<open>None\<close>) for a parameter that does not start with one.
  \<^verbatim>\<open>NaN\<close> passes both comparisons of the bounds check; \<^verbatim>\<open>versions[NaN]\<close> is then
  \<^verbatim>\<open>undefined\<close>, reading its \<^verbatim>\<open>content\<close> throws, and the \<^verbatim>\<open>catch\<close> block rolls back.
\<close>

definition post_revert ::
  "doc_id \<Rightarrow> int option \<Rightarrow> user_id \<Rightarrow> store \<Rightarrow> store \<times> (error + document)" where
  "post_revert docId versionIndex userId s =
     (case documents s docId of
        None \<Rightarrow> (s, Inl NotFound)
      | Some d \<Rightarrow>
          if ownerId d \<noteq> Some userId \<and> userId \<notin> set (collaborators d)
          then (s, Inl AccessDenied)
          else
            let versions = findAll_versions s docId in
            (case versionIndex of
               None \<Rightarrow> (s, Inl ServerError)
             | Some index \<Rightarrow>
                 if index < 0 \<or> index \<ge> int (length versions) then (s, Inl OutOfRange)
                 else
                   let s1 = snapshot_before_write docId d userId s;
                       (s2, d') = install_content docId d (v_content (versions ! nat index)) s1
                   in (s2, Inr d')))"


section \<open>The open routes\<close>

text \<open>
  The second route file (\<^verbatim>\<open>public - everyone can edit\<close>): the same handlers without the
  owner and without the access check.
\<close>

definition post_document_open ::
  "string \<Rightarrow> string option \<Rightarrow> user_id \<Rightarrow> store \<Rightarrow> store \<times> (error + doc_id \<times> document)" where
  "post_document_open ttl body userId s =
     (if ttl = [] then (s, Inl TitleRequired)
      else
        let c = (case body of None \<Rightarrow> [] | Some x \<Rightarrow> x);
            docId = next_id s;
            d = \<lparr>title = ttl, content = c, currentVersion = 0,
                 ownerId = None, collaborators = []\<rparr>;
            s1 = s\<lparr>documents := (documents s)(docId \<mapsto> d), next_id := Suc docId\<rparr>;
            s2 = DocumentVersion_create
                   \<lparr>v_documentId = docId, v_content = c, v_updatedById = userId\<rparr> s1
        in (s2, Inr (docId, d)))"

definition put_document_open ::
  "doc_id \<Rightarrow> string \<Rightarrow> user_id \<Rightarrow> store \<Rightarrow> store \<times> (error + document)" where
  "put_document_open docId newContent userId s =
     (case documents s docId of
        None \<Rightarrow> (s, Inl NotFound)
      | Some d \<Rightarrow>
          if content d = newContent then (s, Inr d)
          else
            let s1 = snapshot_before_write docId d userId s;
                (s2, d') = install_content docId d newContent s1
            in (s2, Inr d'))"

definition post_revert_open ::
  "doc_id \<Rightarrow> int option \<Rightarrow> user_id \<Rightarrow> store \<Rightarrow> store \<times> (error + document)" where
  "post_revert_open docId versionIndex userId s =
     (case documents s docId of
        None \<Rightarrow> (s, Inl NotFound)
      | Some d \<Rightarrow>
          let versions = findAll_versions s docId in
          (case versionIndex of
             None \<Rightarrow> (s, Inl ServerError)
           | Some index \<Rightarrow>
               if index < 0 \<or> index \<ge> int (length versions) then (s, Inl OutOfRange)
               else
                 let s1 = snapshot_before_write docId d userId s;
                     (s2, d') = install_content docId d (v_content (versions ! nat index)) s1
                 in (s2, Inr d')))"


section \<open>Persistence from the socket server\<close>

text \<open>
  \<^verbatim>\<open>saveDocumentToDB(documentId, content, userId, isExplicitSave)\<close> of \<^verbatim>\<open>server.js\<close>.
  A \<^verbatim>\<open>throw\<close> is \<open>Inl\<close>; the bare \<^verbatim>\<open>return\<close> of the unchanged case is \<open>Inr None\<close>
  (the promise resolves to \<^verbatim>\<open>undefined\<close>); a write returns the saved document and the
  count. \<^verbatim>\<open>isExplicitSave\<close> only selects what is logged.

  The two checks roll the transaction back and then \<^verbatim>\<open>throw\<close> inside the \<^verbatim>\<open>try\<close>
  (\<^verbatim>\<open>'Document not found'\<close>, \<^verbatim>\<open>'Access denied'\<close>). The \<^verbatim>\<open>catch\<close> block awaits
  \<^verbatim>\<open>transaction.rollback()\<close> a second time before it would log and rethrow; on the
  finished transaction that call rejects, so the promise of \<^verbatim>\<open>saveDocumentToDB\<close> is
  rejected with the rollback's error and the error that was thrown first is lost.
\<close>

definition saveDocumentToDB ::
  "doc_id \<Rightarrow> string \<Rightarrow> user_id \<Rightarrow> bool \<Rightarrow> store \<Rightarrow> store \<times> (error + (document \<times> nat) option)" where
  "saveDocumentToDB docId newContent userId isExplicitSave s =
     (case documents s docId of
        None \<Rightarrow> (s, Inl RollbackRefused)
      | Some d \<Rightarrow>
          if \<not> hasAccess d userId then (s, Inl RollbackRefused)
          else if content d = newContent then (s, Inr None)
          else
            let s1 = snapshot_before_write docId d userId s;
                (s2, d') = install_content docId d newContent s1
            in (s2, Inr (Some (d', currentVersion d'))))"

section \<open>The socket server\<close>

text \<open>
  \<^verbatim>\<open>server.js\<close> keeps two process-wide maps, \<^verbatim>\<open>documentRooms\<close> (document id to the
  set of user ids present) and \<^verbatim>\<open>autoSaveTimers\<close> (the key
  \<^verbatim>\<open>`${documentId}_${userId}`\<close> to the handle of a timeout). A JavaScript \<^verbatim>\<open>Map\<close> or
  \<^verbatim>\<open>Set\<close> iterates in insertion order, so both are lists here: a \<^verbatim>\<open>Map\<close> is a list
  of pairs with one pair per key, a \<^verbatim>\<open>Set\<close> a list without repetition.
\<close>

fun Map_set :: "'k \<Rightarrow> 'v \<Rightarrow> ('k \<times> 'v) list \<Rightarrow> ('k \<times> 'v) list" where
  "Map_set k v [] = [(k, v)]"
| "Map_set k v (p # m) = (if fst p = k then (k, v) # m else p # Map_set k v m)"

definition Map_delete :: "'k \<Rightarrow> ('k \<times> 'v) list \<Rightarrow> ('k \<times> 'v) list" where
  "Map_delete k m = filter (\<lambda>p. fst p \<noteq> k) m"

definition Set_add :: "'a \<Rightarrow> 'a list \<Rightarrow> 'a list" where
  "Set_add x xs = (if x \<in> set xs then xs else xs @ [x])"

text \<open>
  What the runtime holds besides the two maps: the rooms of the socket.io adapter
  (\<^verbatim>\<open>socket.join\<close>, \<^verbatim>\<open>socket.leave\<close>), the timeouts that are scheduled and have
  neither fired nor been cleared, the timer callbacks that are suspended at their
  \<^verbatim>\<open>await\<close>, and the events that were emitted, each with the sockets it went to.
\<close>

type_synonym sid = nat
type_synonym timer_handle = nat
type_synonym time = nat

record socket =
  socket_id :: sid
  socket_userId :: user_id

datatype message =
    Error_event string "error option"
  | User_joined user_id doc_id
  | Active_users "user_id list"
  | Document_update string user_id nat time
  | Cursor_update user_id nat
  | Document_saved doc_id nat
  | User_left user_id doc_id

text \<open>
  The closure of the callback that \<^verbatim>\<open>document-change\<close> hands to \<^verbatim>\<open>setTimeout\<close>: the
  document, the content of that edit and the user, with the time at which it is due.
\<close>

record pending_save =
  ps_documentId :: doc_id
  ps_content :: string
  ps_userId :: user_id
  ps_due :: time

record server =
  db :: store
  documentRooms :: "(doc_id \<times> user_id list) list"
  autoSaveTimers :: "((doc_id \<times> user_id) \<times> timer_handle) list"
  timers :: "(timer_handle \<times> pending_save) list"
  awaiting :: "(timer_handle \<times> pending_save) list"
  next_timer :: timer_handle
  adapter_rooms :: "doc_id \<Rightarrow> sid list"
  sent :: "(sid list \<times> message) list"

definition server_start :: "store \<Rightarrow> server" where
  "server_start st =
     \<lparr>db = st, documentRooms = [], autoSaveTimers = [], timers = [], awaiting = [],
      next_timer = 0, adapter_rooms = (\<lambda>room. []), sent = []\<rparr>"

subsection \<open>Emitting\<close>

text \<open>\<^verbatim>\<open>socket.emit(...)\<close>: to the socket itself.\<close>

definition socket_emit :: "socket \<Rightarrow> message \<Rightarrow> server \<Rightarrow> server" where
  "socket_emit sock m s = s\<lparr>sent := sent s @ [([socket_id sock], m)]\<rparr>"

text \<open>\<^verbatim>\<open>socket.to(room).emit(...)\<close>: to every socket of the room but the sender.\<close>

definition socket_to_emit :: "socket \<Rightarrow> doc_id \<Rightarrow> message \<Rightarrow> server \<Rightarrow> server" where
  "socket_to_emit sock room m s =
     s\<lparr>sent := sent s @ [(removeAll (socket_id sock) (adapter_rooms s room), m)]\<rparr>"

text \<open>\<^verbatim>\<open>io.to(room).emit(...)\<close>: to every socket of the room.\<close>

definition io_to_emit :: "doc_id \<Rightarrow> message \<Rightarrow> server \<Rightarrow> server" where
  "io_to_emit room m s = s\<lparr>sent := sent s @ [(adapter_rooms s room, m)]\<rparr>"

subsection \<open>Timeouts\<close>

definition clearTimeout :: "timer_handle \<Rightarrow> server \<Rightarrow> server" where
  "clearTimeout h s = s\<lparr>timers := filter (\<lambda>p. fst p \<noteq> h) (timers s)\<rparr>"

definition setTimeout :: "pending_save \<Rightarrow> server \<Rightarrow> timer_handle \<times> server" where
  "setTimeout p s =
     (next_timer s, s\<lparr>timers := timers s @ [(next_timer s, p)], next_timer := Suc (next_timer s)\<rparr>)"

subsection \<open>The handlers\<close>

text \<open>\<^verbatim>\<open>socket.on('join-document', ...)\<close>\<close>

definition join_document :: "socket \<Rightarrow> doc_id \<Rightarrow> server \<Rightarrow> server" where
  "join_document sock docId s =
     (case documents (db s) docId of
        None \<Rightarrow> socket_emit sock (Error_event ''Document not found'' None) s
      | Some d \<Rightarrow>
          if \<not> hasAccess d (socket_userId sock)
          then socket_emit sock (Error_event ''Access denied'' None) s
          else
            let s1 = s\<lparr>adapter_rooms :=
                        (adapter_rooms s)(docId := Set_add (socket_id sock) (adapter_rooms s docId))\<rparr>;
                users = (case map_of (documentRooms s1) docId of None \<Rightarrow> [] | Some us \<Rightarrow> us);
                users' = Set_add (socket_userId sock) users;
                s2 = s1\<lparr>documentRooms := Map_set docId users' (documentRooms s1)\<rparr>;
                s3 = socket_to_emit sock docId (User_joined (socket_userId sock) docId) s2
            in socket_emit sock (Active_users users') s3)"

text \<open>
  \<^verbatim>\<open>socket.on('document-change', ...)\<close>, run at time \<open>now\<close>: the edit is broadcast, the
  timeout stored under the key is cleared, and a new timeout, due two seconds later, is
  stored in its place.
\<close>

definition document_change ::
  "time \<Rightarrow> socket \<Rightarrow> doc_id \<Rightarrow> string \<Rightarrow> nat \<Rightarrow> server \<Rightarrow> server" where
  "document_change now sock docId c cursorPosition s =
     (let s1 = socket_to_emit sock docId
                 (Document_update c (socket_userId sock) cursorPosition now) s;
          timerKey = (docId, socket_userId sock);
          s2 = (case map_of (autoSaveTimers s1) timerKey of
                  None \<Rightarrow> s1
                | Some h \<Rightarrow> clearTimeout h s1);
          (timer, s3) = setTimeout
                          \<lparr>ps_documentId = docId, ps_content = c,
                           ps_userId = socket_userId sock, ps_due = now + 2000\<rparr> s2
      in s3\<lparr>autoSaveTimers := Map_set timerKey timer (autoSaveTimers s3)\<rparr>)"

text \<open>
  The callback of the timeout, in the two pieces that its \<^verbatim>\<open>await\<close> separates. When the
  timeout fires, \<^verbatim>\<open>saveDocumentToDB(documentId, content, socket.userId, false)\<close> runs with
  the content of the edit that scheduled it; an error is logged and dropped.
\<close>

definition timer_fires :: "timer_handle \<Rightarrow> server \<Rightarrow> server" where
  "timer_fires h s =
     (case map_of (timers s) h of
        None \<Rightarrow> s
      | Some p \<Rightarrow>
          let s1 = clearTimeout h s;
              (db', r) = saveDocumentToDB (ps_documentId p) (ps_content p) (ps_userId p) False (db s1)
          in s1\<lparr>db := db', awaiting := awaiting s1 @ [(h, p)]\<rparr>)"

text \<open>
  When the promise has settled the callback resumes, in its \<^verbatim>\<open>try\<close> or in its
  \<^verbatim>\<open>catch\<close> branch, with \<^verbatim>\<open>autoSaveTimers.delete(timerKey)\<close>.
\<close>

definition save_settled :: "timer_handle \<Rightarrow> server \<Rightarrow> server" where
  "save_settled h s =
     (case map_of (awaiting s) h of
        None \<Rightarrow> s
      | Some p \<Rightarrow>
          s\<lparr>autoSaveTimers := Map_delete (ps_documentId p, ps_userId p) (autoSaveTimers s),
            awaiting := filter (\<lambda>q. fst q \<noteq> h) (awaiting s)\<rparr>)"

text \<open>\<^verbatim>\<open>socket.on('cursor-position', ...)\<close>\<close>

definition cursor_position :: "socket \<Rightarrow> doc_id \<Rightarrow> nat \<Rightarrow> server \<Rightarrow> server" where
  "cursor_position sock docId position s =
     socket_to_emit sock docId (Cursor_update (socket_userId sock) position) s"

text \<open>
  \<^verbatim>\<open>socket.on('save-document', ...)\<close>. The document is read again after
  \<^verbatim>\<open>saveDocumentToDB\<close> has returned, and its \<^verbatim>\<open>currentVersion\<close> is what the
  \<^verbatim>\<open>document-saved\<close> event carries (its \<^verbatim>\<open>updatedAt\<close> is left out). Reading a document
  that is not there throws inside the \<^verbatim>\<open>try\<close>.
\<close>

definition save_document :: "socket \<Rightarrow> doc_id \<Rightarrow> string \<Rightarrow> server \<Rightarrow> server" where
  "save_document sock docId c s =
     (let timerKey = (docId, socket_userId sock);
          s1 = (case map_of (autoSaveTimers s) timerKey of
                  None \<Rightarrow> s
                | Some h \<Rightarrow>
                    (clearTimeout h s)\<lparr>autoSaveTimers := Map_delete timerKey (autoSaveTimers s)\<rparr>)
      in case saveDocumentToDB docId c (socket_userId sock) True (db s1) of
           (db', Inl e) \<Rightarrow>
             socket_emit sock (Error_event ''Failed to save document'' (Some e)) s1
         | (db', Inr r) \<Rightarrow>
             (case documents db' docId of
                None \<Rightarrow>
                  socket_emit sock (Error_event ''Failed to save document'' (Some ServerError))
                    (s1\<lparr>db := db'\<rparr>)
              | Some d \<Rightarrow>
                  io_to_emit docId (Document_saved docId (currentVersion d)) (s1\<lparr>db := db'\<rparr>)))"

text \<open>\<^verbatim>\<open>socket.on('leave-document', ...)\<close>\<close>

definition leave_document :: "socket \<Rightarrow> doc_id \<Rightarrow> server \<Rightarrow> server" where
  "leave_document sock docId s =
     (let s1 = s\<lparr>adapter_rooms :=
                  (adapter_rooms s)(docId := removeAll (socket_id sock) (adapter_rooms s docId))\<rparr>;
          s2 = (case map_of (documentRooms s1) docId of
                  None \<Rightarrow> s1
                | Some users \<Rightarrow>
                    let users' = removeAll (socket_userId sock) users
                    in if length users' = 0
                       then s1\<lparr>documentRooms := Map_delete docId (documentRooms s1)\<rparr>
                       else s1\<lparr>documentRooms := Map_set docId users' (documentRooms s1)\<rparr>)
      in socket_to_emit sock docId (User_left (socket_userId sock) docId) s2)"

text \<open>
  \<^verbatim>\<open>socket.on('disconnect', ...)\<close>. When the handler runs the socket has left its rooms.
  The first loop goes over the entries of \<^verbatim>\<open>autoSaveTimers\<close> whose key ends in the user
  id: the timeout is cleared and the entry deleted (the document is read and a line is
  logged, nothing is saved). The second loop is \<^verbatim>\<open>documentRooms.forEach\<close>. The handler
  is taken as one step, without the events that could run while it reads the document.
\<close>

fun disconnect_timers ::
  "user_id \<Rightarrow> ((doc_id \<times> user_id) \<times> timer_handle) list \<Rightarrow> server \<Rightarrow> server" where
  "disconnect_timers userId [] s = s"
| "disconnect_timers userId ((timerKey, timer) # entries) s =
     disconnect_timers userId entries
       (if snd timerKey = userId
        then (clearTimeout timer s)\<lparr>autoSaveTimers := Map_delete timerKey (autoSaveTimers s)\<rparr>
        else s)"

fun disconnect_rooms :: "socket \<Rightarrow> (doc_id \<times> user_id list) list \<Rightarrow> server \<Rightarrow> server" where
  "disconnect_rooms sock [] s = s"
| "disconnect_rooms sock ((docId, users) # entries) s =
     disconnect_rooms sock entries
       (if socket_userId sock \<in> set users
        then
          let users' = removeAll (socket_userId sock) users;
              s1 = s\<lparr>documentRooms := Map_set docId users' (documentRooms s)\<rparr>;
              s2 = socket_to_emit sock docId (User_left (socket_userId sock) docId) s1
          in if length users' = 0
             then s2\<lparr>documentRooms := Map_delete docId (documentRooms s2)\<rparr>
             else s2
        else s)"

definition disconnect :: "socket \<Rightarrow> server \<Rightarrow> server" where
  "disconnect sock s =
     (let s0 = s\<lparr>adapter_rooms := (\<lambda>room. removeAll (socket_id sock) (adapter_rooms s room))\<rparr>;
          s1 = disconnect_timers (socket_userId sock) (autoSaveTimers s0) s0
      in disconnect_rooms sock (documentRooms s1) s1)"

subsection \<open>Runs of the server\<close>

text \<open>
  The server is single-threaded: a handler runs until it returns or reaches an
  \<^verbatim>\<open>await\<close>. A run is a list of timed events. A timeout fires only when it is still
  scheduled and due; a callback resumes only while it is suspended; time does not go
  back. An event that cannot happen stops the run with \<open>None\<close>.
\<close>

datatype event =
    Document_change socket doc_id string nat
  | Timer_fires timer_handle
  | Save_settled timer_handle

fun step :: "time \<Rightarrow> event \<Rightarrow> server \<Rightarrow> server option" where
  "step now (Document_change sock docId c cursorPosition) s =
     Some (document_change now sock docId c cursorPosition s)"
| "step now (Timer_fires h) s =
     (case map_of (timers s) h of
        None \<Rightarrow> None
      | Some p \<Rightarrow> if now < ps_due p then None else Some (timer_fires h s))"
| "step now (Save_settled h) s =
     (case map_of (awaiting s) h of
        None \<Rightarrow> None
      | Some p \<Rightarrow> Some (save_settled h s))"

fun run :: "time \<Rightarrow> (time \<times> event) list \<Rightarrow> server \<Rightarrow> server option" where
  "run now [] s = Some s"
| "run now ((t, e) # es) s =
     (if t < now then None
      else case step t e s of None \<Rightarrow> None | Some s' \<Rightarrow> run t es s')"

text \<open>The saves that are scheduled for a pair of document and user.\<close>

definition pending_for :: "doc_id \<times> user_id \<Rightarrow> server \<Rightarrow> pending_save list" where
  "pending_for k s =
     map snd (filter (\<lambda>q. (ps_documentId (snd q), ps_userId (snd q)) = k) (timers s))"

section \<open>Notions used in the statements\<close>

subsection \<open>What a write leaves behind\<close>

text \<open>
  What an applied content change adds to the version table, read off the ledger of the
  document: the content that is being replaced, attributed to the acting user, unless
  the ledger's last entry already holds that content.
\<close>

definition snapshot :: "doc_id \<Rightarrow> document \<Rightarrow> user_id \<Rightarrow> document_version" where
  "snapshot docId d userId =
     \<lparr>v_documentId = docId, v_content = content d, v_updatedById = userId\<rparr>"

definition appended_on_change ::
  "store \<Rightarrow> doc_id \<Rightarrow> document \<Rightarrow> user_id \<Rightarrow> document_version list" where
  "appended_on_change s docId d userId =
     (let ledger = findAll_versions s docId in
      if ledger = [] then [snapshot docId d userId]
      else if v_content (last ledger) = content d then []
      else [snapshot docId d userId])"

text \<open>The document and the store that a write of content \<open>c\<close> leaves.\<close>

definition written_doc :: "doc_id \<Rightarrow> document \<Rightarrow> user_id \<Rightarrow> string \<Rightarrow> store \<Rightarrow> document" where
  "written_doc docId d userId c s =
     d\<lparr>content := c,
       currentVersion := count_versions (snapshot_before_write docId d userId s) docId\<rparr>"

definition written_store :: "doc_id \<Rightarrow> document \<Rightarrow> user_id \<Rightarrow> string \<Rightarrow> store \<Rightarrow> store" where
  "written_store docId d userId c s =
     document_save docId (written_doc docId d userId c s) (snapshot_before_write docId d userId s)"


subsection \<open>The version counter\<close>

text \<open>
  A response is \<open>recounted\<close> when it is a success whose document is the stored one and
  whose \<^verbatim>\<open>currentVersion\<close> is the number of versions the store holds for it.
\<close>

definition recounted :: "doc_id \<Rightarrow> store \<times> (error + document) \<Rightarrow> bool" where
  "recounted docId r =
     (case r of
        (s', Inr d') \<Rightarrow>
          documents s' docId = Some d' \<and> currentVersion d' = count_versions s' docId
      | (s', Inl e) \<Rightarrow> False)"

definition recounted_save ::
  "doc_id \<Rightarrow> store \<times> (error + (document \<times> nat) option) \<Rightarrow> bool" where
  "recounted_save docId r =
     (case r of
        (s', Inr (Some (d', n))) \<Rightarrow>
          documents s' docId = Some d' \<and> currentVersion d' = count_versions s' docId
          \<and> n = count_versions s' docId
      | (s', Inr None) \<Rightarrow> False
      | (s', Inl e) \<Rightarrow> False)"

text \<open>
  A creation response: the new document is stored with \<^verbatim>\<open>currentVersion\<close> 0 while the
  store holds one more version for its id than before.
\<close>

definition created_unrecounted ::
  "store \<Rightarrow> store \<times> (error + doc_id \<times> document) \<Rightarrow> bool" where
  "created_unrecounted s r =
     (case r of
        (s', Inr (docId, d')) \<Rightarrow>
          documents s' docId = Some d' \<and> currentVersion d' = 0
          \<and> count_versions s' docId = Suc (count_versions s docId)
      | (s', Inl e) \<Rightarrow> False)"

subsection \<open>Reachable stores\<close>




text \<open>The ledger of a document: the contents of its versions, oldest first.\<close>

definition ledger :: "store \<Rightarrow> doc_id \<Rightarrow> string list" where
  "ledger s docId = map v_content (findAll_versions s docId)"





subsection \<open>Revert and revert back\<close>

text \<open>
  A revert to index \<open>i\<close>, followed at once by a revert to the last index of the ledger
  as the first revert left it.
\<close>

definition revert_round_trip :: "doc_id \<Rightarrow> int \<Rightarrow> user_id \<Rightarrow> store \<Rightarrow> store" where
  "revert_round_trip docId i userId s =
     (let s1 = fst (post_revert docId (Some i) userId s);
          lastIndex = int (count_versions s1 docId) - 1
      in fst (post_revert docId (Some lastIndex) userId s1))"

section \<open>A running example\<close>

text \<open>
  User 7 creates a document with content \<^verbatim>\<open>v0\<close>, edits it to \<^verbatim>\<open>v1\<close> and then to
  \<^verbatim>\<open>v2\<close>. The states along the way are used to evaluate the handlers on concrete input.
\<close>

definition doc0 :: "string \<Rightarrow> nat \<Rightarrow> document" where
  "doc0 c n = \<lparr>title = ''notes'', content = c, currentVersion = n,
               ownerId = Some 7, collaborators = []\<rparr>"

definition ver0 :: "string \<Rightarrow> document_version" where
  "ver0 c = \<lparr>v_documentId = 0, v_content = c, v_updatedById = 7\<rparr>"

definition store_v0 :: store where
  "store_v0 = fst (post_document ''notes'' (Some ''v0'') 7 empty_store)"

definition store_v1 :: store where
  "store_v1 = fst (put_document 0 ''v1'' 7 store_v0)"

definition store_v2 :: store where
  "store_v2 = fst (put_document 0 ''v2'' 7 store_v1)"

text \<open>
  From \<open>store_v1\<close> the user reverts to index 0, and then to index 0 once more.
\<close>

definition store_r1 :: store where
  "store_r1 = fst (post_revert 0 (Some 0) 7 store_v1)"

definition store_r2 :: store where
  "store_r2 = fst (post_revert 0 (Some 0) 7 store_r1)"

section \<open>Notions about rooms and events\<close>

text \<open>The users present in a document's room; nobody when the room has no entry.\<close>

definition room_members :: "server \<Rightarrow> doc_id \<Rightarrow> user_id list" where
  "room_members s docId =
     (case map_of (documentRooms s) docId of None \<Rightarrow> [] | Some us \<Rightarrow> us)"

text \<open>
  \<^verbatim>\<open>documentRooms\<close> is a well-formed map of non-empty sets: one entry per document, and
  no entry whose set is empty.
\<close>

definition rooms_ok :: "server \<Rightarrow> bool" where
  "rooms_ok s \<longleftrightarrow>
     distinct (map fst (documentRooms s)) \<and> list_all (\<lambda>p. snd p \<noteq> []) (documentRooms s)"

text \<open>
  The rooms with user \<open>u\<close> taken out of every set that holds the user, and every set
  that this empties dropped.
\<close>

fun rooms_without ::
  "user_id \<Rightarrow> (doc_id \<times> user_id list) list \<Rightarrow> (doc_id \<times> user_id list) list" where
  "rooms_without u [] = []"
| "rooms_without u ((docId, users) # m) =
     (if u \<in> set users
      then (if removeAll u users = [] then [] else [(docId, removeAll u users)])
      else [(docId, users)]) @ rooms_without u m"

text \<open>
  One \<^verbatim>\<open>user-left\<close> event for every room that holds the user of the socket, sent to
  the other sockets of that room.
\<close>

fun user_left_events ::
  "socket \<Rightarrow> (doc_id \<Rightarrow> sid list) \<Rightarrow> (doc_id \<times> user_id list) list
     \<Rightarrow> (sid list \<times> message) list" where
  "user_left_events sock rooms [] = []"
| "user_left_events sock rooms ((docId, users) # m) =
     (if socket_userId sock \<in> set users
      then [(removeAll (socket_id sock) (rooms docId), User_left (socket_userId sock) docId)]
      else []) @ user_left_events sock rooms m"

section \<open>Example sessions\<close>

text \<open>
  User 7, the owner of document 0, is connected twice (two tabs, sockets 10 and 11);
  user 9 is a collaborator on socket 12; user 8 is neither owner nor collaborator.
\<close>

definition tab1 :: socket where
  "tab1 = \<lparr>socket_id = 10, socket_userId = 7\<rparr>"

definition tab2 :: socket where
  "tab2 = \<lparr>socket_id = 11, socket_userId = 7\<rparr>"

definition guest :: socket where
  "guest = \<lparr>socket_id = 12, socket_userId = 9\<rparr>"

definition stranger :: socket where
  "stranger = \<lparr>socket_id = 13, socket_userId = 8\<rparr>"

definition store_shared :: store where
  "store_shared =
     store_v1\<lparr>documents := (documents store_v1)(0 \<mapsto> (doc0 ''v1'' 1)\<lparr>collaborators := [9]\<rparr>)\<rparr>"

text \<open>Both tabs of user 7 have joined document 0.\<close>

definition two_tabs :: server where
  "two_tabs = join_document tab2 0 (join_document tab1 0 (server_start store_v1))"

text \<open>User 7 and user 9 have joined document 0.\<close>

definition two_users :: server where
  "two_users = join_document guest 0 (join_document tab1 0 (server_start store_shared))"

text \<open>
  A run on the new document \<open>store_v0\<close>. The user types \<^verbatim>\<open>a\<close> and pauses; the timeout
  fires after two seconds and the save is under way when \<^verbatim>\<open>b\<close> is typed; the callback
  resumes; \<^verbatim>\<open>c\<close> is typed 490 ms after \<^verbatim>\<open>b\<close>.
\<close>

definition race_edits :: "(time \<times> event) list" where
  "race_edits =
     [(0, Document_change tab1 0 ''a'' 0),
      (2000, Timer_fires 0),
      (2010, Document_change tab1 0 ''b'' 0),
      (2050, Save_settled 0),
      (2500, Document_change tab1 0 ''c'' 0)]"

text \<open>The timeouts that are left fire when they are due.\<close>

definition race_saves :: "(time \<times> event) list" where
  "race_saves =
     [(4010, Timer_fires 1),
      (4050, Save_settled 1),
      (4500, Timer_fires 2),
      (4550, Save_settled 2)]"

section \<open>Notions about pending saves\<close>

text \<open>
  The pair \<open>k\<close> is tracked when every timeout that is scheduled for it is the one
  whose handle \<^verbatim>\<open>autoSaveTimers\<close> holds under its key, so that the next edit clears it.
\<close>

definition tracked :: "doc_id \<times> user_id \<Rightarrow> server \<Rightarrow> bool" where
  "tracked k s =
     (case map_of (autoSaveTimers s) k of
        None \<Rightarrow> pending_for k s = []
      | Some h \<Rightarrow>
          list_all (\<lambda>q. fst q = h)
            (filter (\<lambda>q. (ps_documentId (snd q), ps_userId (snd q)) = k) (timers s)))"

text \<open>A burst of edits from one socket to one document, each with its time.\<close>

fun type_edits :: "socket \<Rightarrow> doc_id \<Rightarrow> (time \<times> string) list \<Rightarrow> server \<Rightarrow> server" where
  "type_edits sock docId [] s = s"
| "type_edits sock docId ((now, c) # edits) s =
     type_edits sock docId edits (document_change now sock docId c 0 s)"

section \<open>Facts about the store\<close>

subsection \<open>The version table under the primitive operations\<close>

lemma findAll_versions_save [simp]:
  "findAll_versions (document_save docId d s) docId' = findAll_versions s docId'"
  by (simp add: findAll_versions_def document_save_def)

lemma findOne_lastVersion_eq:
  "findOne_lastVersion s docId =
     (if findAll_versions s docId = [] then None else Some (last (findAll_versions s docId)))"
  by (cases "findAll_versions s docId" rule: rev_cases) (simp_all add: findOne_lastVersion_def)

lemma document_versions_snapshot:
  "document_versions (snapshot_before_write docId d userId s) =
     document_versions s @
       (if snapshot_needed (findOne_lastVersion s docId) d
        then [\<lparr>v_documentId = docId, v_content = content d, v_updatedById = userId\<rparr>]
        else [])"
  by (simp add: snapshot_before_write_def DocumentVersion_create_def)

lemma documents_snapshot [simp]:
  "documents (snapshot_before_write docId d userId s) = documents s"
  by (simp add: snapshot_before_write_def DocumentVersion_create_def)

lemma next_id_snapshot [simp]: "next_id (snapshot_before_write docId d userId s) = next_id s"
  by (simp add: snapshot_before_write_def DocumentVersion_create_def)

lemma denied_iff:
  "(ownerId d \<noteq> Some userId \<and> userId \<notin> set (collaborators d)) = (\<not> hasAccess d userId)"
  by (simp add: hasAccess_def)

lemma snapshot_appends:
  "document_versions (snapshot_before_write docId d userId s) =
     document_versions s @ appended_on_change s docId d userId"
  by (simp add: document_versions_snapshot appended_on_change_def snapshot_def
      snapshot_needed_def findOne_lastVersion_eq Let_def)

lemma findAll_snapshot:
  "findAll_versions (snapshot_before_write docId d userId s) docId =
     findAll_versions s docId @ appended_on_change s docId d userId"
  by (simp add: findAll_versions_def snapshot_appends)
     (simp add: appended_on_change_def snapshot_def Let_def)

lemma length_appended:
  "length (appended_on_change s docId d userId) =
     (if findAll_versions s docId = [] \<or> v_content (last (findAll_versions s docId)) \<noteq> content d
      then 1 else 0)"
  by (simp add: appended_on_change_def Let_def)

lemma last_content_appended:
  assumes "findAll_versions s docId \<noteq> []"
  shows "v_content (last (findAll_versions s docId @ appended_on_change s docId d userId)) =
           content d"
  using assms by (simp add: appended_on_change_def snapshot_def Let_def)

subsection \<open>What each handler does when it writes\<close>

lemma put_document_applied:
  assumes "documents s docId = Some d" and "hasAccess d userId" and "content d \<noteq> c"
  shows "put_document docId c userId s =
           (written_store docId d userId c s, Inr (written_doc docId d userId c s))"
  using assms
  by (simp add: put_document_def denied_iff install_content_def written_store_def
      written_doc_def Let_def)

lemma put_document_open_applied:
  assumes "documents s docId = Some d" and "content d \<noteq> c"
  shows "put_document_open docId c userId s =
           (written_store docId d userId c s, Inr (written_doc docId d userId c s))"
  using assms
  by (simp add: put_document_open_def install_content_def written_store_def
      written_doc_def Let_def)

lemma saveDocumentToDB_applied:
  assumes "documents s docId = Some d" and "hasAccess d userId" and "content d \<noteq> c"
  shows "saveDocumentToDB docId c userId e s =
           (written_store docId d userId c s,
            Inr (Some (written_doc docId d userId c s,
                       currentVersion (written_doc docId d userId c s))))"
  using assms
  by (simp add: saveDocumentToDB_def install_content_def written_store_def
      written_doc_def Let_def)

lemma post_revert_applied:
  assumes "documents s docId = Some d" and "hasAccess d userId"
    and "0 \<le> i" and "i < int (count_versions s docId)"
  shows "post_revert docId (Some i) userId s =
           (written_store docId d userId (v_content (findAll_versions s docId ! nat i)) s,
            Inr (written_doc docId d userId (v_content (findAll_versions s docId ! nat i)) s))"
  using assms
  by (simp add: post_revert_def denied_iff install_content_def written_store_def
      written_doc_def count_versions_def Let_def)

lemma post_revert_open_applied:
  assumes "documents s docId = Some d"
    and "0 \<le> i" and "i < int (count_versions s docId)"
  shows "post_revert_open docId (Some i) userId s =
           (written_store docId d userId (v_content (findAll_versions s docId ! nat i)) s,
            Inr (written_doc docId d userId (v_content (findAll_versions s docId ! nat i)) s))"
  using assms
  by (simp add: post_revert_open_def install_content_def written_store_def
      written_doc_def count_versions_def Let_def)



subsection \<open>The written store\<close>

lemma documents_written [simp]:
  "documents (written_store docId d userId c s) docId = Some (written_doc docId d userId c s)"
  by (simp add: written_store_def document_save_def)

lemma document_versions_written:
  "document_versions (written_store docId d userId c s) =
     document_versions s @ appended_on_change s docId d userId"
  by (simp add: written_store_def document_save_def snapshot_appends)

lemma findAll_written:
  "findAll_versions (written_store docId d userId c s) docId =
     findAll_versions s docId @ appended_on_change s docId d userId"
  by (simp add: written_store_def findAll_snapshot)

lemma count_written:
  "count_versions (written_store docId d userId c s) docId =
     currentVersion (written_doc docId d userId c s)"
  by (simp add: written_store_def written_doc_def count_versions_def)

lemma content_written [simp]: "content (written_doc docId d userId c s) = c"
  by (simp add: written_doc_def)

lemma hasAccess_written [simp]:
  "hasAccess (written_doc docId d userId c s) u = hasAccess d u"
  by (simp add: written_doc_def hasAccess_def)

lemma next_id_written [simp]: "next_id (written_store docId d userId c s) = next_id s"
  by (simp add: written_store_def document_save_def)

lemma recounted_written:
  "recounted docId (written_store docId d userId c s, Inr (written_doc docId d userId c s))"
  by (simp add: recounted_def count_written)

lemma post_document_created:
  "ttl \<noteq> [] \<Longrightarrow> created_unrecounted s (post_document ttl body userId s)"
  by (simp add: post_document_def created_unrecounted_def Let_def count_versions_def
      findAll_versions_def DocumentVersion_create_def)

lemma post_document_open_created:
  "ttl \<noteq> [] \<Longrightarrow> created_unrecounted s (post_document_open ttl body userId s)"
  by (simp add: post_document_open_def created_unrecounted_def Let_def count_versions_def
      findAll_versions_def DocumentVersion_create_def)

subsection \<open>The ledger\<close>






















subsection \<open>The example states, evaluated\<close>

lemmas handler_defs =
  post_document_def put_document_def post_revert_def put_document_open_def
  post_revert_open_def saveDocumentToDB_def snapshot_before_write_def snapshot_needed_def
  findOne_lastVersion_def findAll_versions_def install_content_def count_versions_def
  document_save_def DocumentVersion_create_def hasAccess_def

lemma store_v0_eq:
  "store_v0 = \<lparr>documents = [0 \<mapsto> doc0 ''v0'' 0], document_versions = [ver0 ''v0''], next_id = 1\<rparr>"
  by (simp add: store_v0_def handler_defs empty_store_def doc0_def ver0_def Let_def)

lemma store_v1_eq:
  "store_v1 = \<lparr>documents = [0 \<mapsto> doc0 ''v1'' 1], document_versions = [ver0 ''v0''], next_id = 1\<rparr>"
  by (simp add: store_v1_def store_v0_eq handler_defs doc0_def ver0_def Let_def)

lemma store_v2_eq:
  "store_v2 = \<lparr>documents = [0 \<mapsto> doc0 ''v2'' 2],
                document_versions = [ver0 ''v0'', ver0 ''v1''], next_id = 1\<rparr>"
  by (simp add: store_v2_def store_v1_eq handler_defs doc0_def ver0_def Let_def numeral_2_eq_2)

lemma store_r1_eq:
  "store_r1 = \<lparr>documents = [0 \<mapsto> doc0 ''v0'' 2],
                document_versions = [ver0 ''v0'', ver0 ''v1''], next_id = 1\<rparr>"
  by (simp add: store_r1_def store_v1_eq handler_defs doc0_def ver0_def Let_def numeral_2_eq_2)

lemma store_r2_eq:
  "store_r2 = \<lparr>documents = [0 \<mapsto> doc0 ''v0'' 3],
                document_versions = [ver0 ''v0'', ver0 ''v1'', ver0 ''v0''], next_id = 1\<rparr>"
  by (simp add: store_r2_def store_r1_eq handler_defs doc0_def ver0_def Let_def
      numeral_2_eq_2 numeral_3_eq_3)

lemma hasAccess_doc0 [simp]: "hasAccess (doc0 c n) 7"
  by (simp add: hasAccess_def doc0_def)

lemma content_doc0 [simp]: "content (doc0 c n) = c"
  by (simp add: doc0_def)

lemma currentVersion_doc0 [simp]: "currentVersion (doc0 c n) = n"
  by (simp add: doc0_def)


lemma count_examples:
  "count_versions store_v0 0 = 1" "count_versions store_v1 0 = 1"
  "count_versions store_v2 0 = 2" "count_versions store_r1 0 = 2"
  "count_versions store_r2 0 = 3"
  by (simp_all add: count_versions_def findAll_versions_def ver0_def
      store_v0_eq store_v1_eq store_v2_eq store_r1_eq store_r2_eq)

lemma documents_examples:
  "documents store_v0 0 = Some (doc0 ''v0'' 0)" "documents store_v1 0 = Some (doc0 ''v1'' 1)"
  "documents store_v2 0 = Some (doc0 ''v2'' 2)" "documents store_r1 0 = Some (doc0 ''v0'' 2)"
  "documents store_r2 0 = Some (doc0 ''v0'' 3)"
  by (simp_all add: store_v0_eq store_v1_eq store_v2_eq store_r1_eq store_r2_eq)


section \<open>The version counter\<close>

text \<open>
  C1, as the code has it. After every applied content change (the socket server's
  \<open>saveDocumentToDB\<close> and both update routes) and after every successful revert, the
  stored \<^verbatim>\<open>currentVersion\<close> is exactly the number of versions the store holds for the
  document: it is counted, whatever the counter was before. Document creation is
  different: it stores \<^verbatim>\<open>currentVersion: 0\<close> and then writes the initial version, so
  the counter is 0 while the ledger has one entry.
\<close>

theorem versionCount_recount:
  assumes "documents s docId = Some d" and "hasAccess d userId"
  shows "(content d \<noteq> c \<longrightarrow>
            recounted docId (put_document docId c userId s)
          \<and> recounted docId (put_document_open docId c userId s)
          \<and> recounted_save docId (saveDocumentToDB docId c userId e s))
       \<and> (0 \<le> i \<and> i < int (count_versions s docId) \<longrightarrow>
            recounted docId (post_revert docId (Some i) userId s)
          \<and> recounted docId (post_revert_open docId (Some i) userId s))
       \<and> (ttl \<noteq> [] \<longrightarrow>
            created_unrecounted s (post_document ttl body userId s)
          \<and> created_unrecounted s (post_document_open ttl body userId s))"
proof -
  have "recounted_save docId (saveDocumentToDB docId c userId e s)" if "content d \<noteq> c"
    using assms that by (simp add: saveDocumentToDB_applied recounted_save_def count_written)
  then show ?thesis
    using assms
    by (simp add: put_document_applied put_document_open_applied post_revert_applied
        post_revert_open_applied recounted_written post_document_created
        post_document_open_created)
qed

text \<open>
  In \<open>store_v0\<close> the counter is 0 and the ledger has one entry. The first edit adds no
  version (the initial version already holds the content it replaces), and the counter
  becomes 1: the count, not the old counter plus the versions added.
\<close>

theorem versionCount_recount_witness:
  "put_document 0 ''v1'' 7 store_v0 = (store_v1, Inr (doc0 ''v1'' 1))
 \<and> count_versions store_v0 0 = 1 \<and> count_versions store_v1 0 = 1
 \<and> recounted 0 (put_document 0 ''v1'' 7 store_v0)
 \<and> recounted 0 (put_document_open 0 ''v1'' 7 store_v0)
 \<and> recounted_save 0 (saveDocumentToDB 0 ''v1'' 7 False store_v0)
 \<and> recounted 0 (post_revert 0 (Some 0) 7 store_v0)
 \<and> recounted 0 (post_revert_open 0 (Some 0) 7 store_v0)
 \<and> created_unrecounted store_v0 (post_document ''memo'' None 7 store_v0)
 \<and> created_unrecounted store_v0 (post_document_open ''memo'' None 7 store_v0)"
proof -
  have ev: "put_document 0 ''v1'' 7 store_v0 = (store_v1, Inr (doc0 ''v1'' 1))"
    by (simp add: store_v1_eq) (simp add: store_v0_eq handler_defs doc0_def ver0_def Let_def)
  have ne: "content (doc0 ''v0'' 0) \<noteq> ''v1''" and t: "''memo'' \<noteq> []"
    and i: "(0::int) \<le> 0 \<and> 0 < int (count_versions store_v0 0)"
    by (simp_all add: count_examples)
  from versionCount_recount [OF documents_examples(1) hasAccess_doc0,
      of "''v1''" False 0 "''memo''" None] ne t i ev count_examples(1,2)
  show ?thesis
    by simp
qed

theorem versionCount_after_creation_counterexample:
  "post_document ''notes'' (Some ''v0'') 7 empty_store = (store_v0, Inr (0, doc0 ''v0'' 0))
 \<and> documents store_v0 0 = Some (doc0 ''v0'' 0)
 \<and> currentVersion (doc0 ''v0'' 0) = 0
 \<and> count_versions store_v0 0 = 1"
  using documents_examples(1) count_examples(1)
  by (simp add: store_v0_eq) (simp add: handler_defs empty_store_def doc0_def ver0_def Let_def)

section \<open>The ledger invariant\<close>




section \<open>Unchanged content\<close>

text \<open>
  C3, as the code has it. A change whose content is the document's content is not
  applied: the store is left as it was (no version, the same counter, the same content).
  Both update routes answer with the unchanged document, which carries its version
  counter; \<open>saveDocumentToDB\<close> returns without a value.
\<close>

theorem unchanged_content_noop:
  assumes "documents s docId = Some d" and "hasAccess d userId" and "content d = c"
  shows "put_document docId c userId s = (s, Inr d)
       \<and> put_document_open docId c userId s = (s, Inr d)
       \<and> saveDocumentToDB docId c userId e s = (s, Inr None)"
  using assms
  by (simp add: put_document_def put_document_open_def saveDocumentToDB_def denied_iff)

theorem unchanged_content_noop_witness:
  "put_document 0 ''v1'' 7 store_v1 = (store_v1, Inr (doc0 ''v1'' 1))
 \<and> put_document_open 0 ''v1'' 7 store_v1 = (store_v1, Inr (doc0 ''v1'' 1))
 \<and> saveDocumentToDB 0 ''v1'' 7 False store_v1 = (store_v1, Inr None)"
  using unchanged_content_noop [OF documents_examples(2) hasAccess_doc0, of "''v1''" False]
  by simp

theorem unchanged_save_returns_nothing_counterexample:
  "documents store_v1 0 = Some (doc0 ''v1'' 1)
 \<and> hasAccess (doc0 ''v1'' 1) 7
 \<and> snd (saveDocumentToDB 0 ''v1'' 7 True store_v1) = Inr None
 \<and> snd (saveDocumentToDB 0 ''v1'' 7 True store_v1) \<noteq> Inr (Some (doc0 ''v1'' 1, 1))"
  using documents_examples(2)
  by (simp add: saveDocumentToDB_def)

section \<open>Snapshot before write\<close>

text \<open>
  C4. A content change that is applied (the document exists, the user may write, the new
  content differs) extends the version table by exactly \<open>appended_on_change\<close>: one
  version carrying the previous content and the acting user when the document's ledger
  is empty or its last entry differs from the previous content, and nothing otherwise.
  The version that is added never carries the new content. This holds for the socket
  server's \<open>saveDocumentToDB\<close> and for both update routes.
\<close>

theorem snapshot_carries_previous_content:
  assumes "documents s docId = Some d" and "hasAccess d userId" and "content d \<noteq> newContent"
  shows "document_versions (fst (saveDocumentToDB docId newContent userId e s)) =
           document_versions s @ appended_on_change s docId d userId
       \<and> document_versions (fst (put_document docId newContent userId s)) =
           document_versions s @ appended_on_change s docId d userId
       \<and> document_versions (fst (put_document_open docId newContent userId s)) =
           document_versions s @ appended_on_change s docId d userId
       \<and> v_content (snapshot docId d userId) = content d
       \<and> v_updatedById (snapshot docId d userId) = userId
       \<and> v_content (snapshot docId d userId) \<noteq> newContent"
  using assms
  by (simp add: saveDocumentToDB_applied put_document_applied put_document_open_applied
      document_versions_written snapshot_def)

theorem snapshot_carries_previous_content_witness:
  "document_versions (fst (saveDocumentToDB 0 ''v2'' 7 False store_v1)) = [ver0 ''v0'', ver0 ''v1'']
 \<and> document_versions (fst (put_document 0 ''v2'' 7 store_v1)) = [ver0 ''v0'', ver0 ''v1'']
 \<and> document_versions (fst (put_document 0 ''v1'' 7 store_v0)) = [ver0 ''v0'']"
proof -
  have b: "content (doc0 ''v1'' 1) \<noteq> ''v2''"
    by simp
  have c: "appended_on_change store_v1 0 (doc0 ''v1'' 1) 7 = [ver0 ''v1'']"
    by (simp add: appended_on_change_def findAll_versions_def store_v1_eq snapshot_def ver0_def)
  have b0: "content (doc0 ''v0'' 0) \<noteq> ''v1''"
    by simp
  have c0: "appended_on_change store_v0 0 (doc0 ''v0'' 0) 7 = []"
    by (simp add: appended_on_change_def findAll_versions_def store_v0_eq ver0_def)
  have v1: "document_versions store_v1 = [ver0 ''v0'']"
    by (simp add: store_v1_eq)
  have v0: "document_versions store_v0 = [ver0 ''v0'']"
    by (simp add: store_v0_eq)
  from snapshot_carries_previous_content [OF documents_examples(2) hasAccess_doc0 b, of False]
       snapshot_carries_previous_content [OF documents_examples(1) hasAccess_doc0 b0, of False]
       c c0 v1 v0
  show ?thesis
    by simp
qed

section \<open>Revert\<close>

text \<open>
  C5, as the code has it. A revert to index \<open>i\<close> leaves a ledger whose last entry holds
  the content that was live before. Reverting to that last index right away brings the
  original live content back. Each of the two reverts adds a version only when the
  ledger's last entry differs from the content it replaces: together they add two
  versions when both the last entry before the first revert and version \<open>i\<close> differ
  from the original live content, and one or none otherwise.
\<close>

theorem revert_round_trip_restores:
  assumes d: "documents s docId = Some d" and a: "hasAccess d userId"
    and lo: "0 \<le> i" and hi: "i < int (count_versions s docId)"
  shows "last (ledger (fst (post_revert docId (Some i) userId s)) docId) = content d
       \<and> map_option content (documents (revert_round_trip docId i userId s) docId) =
           Some (content d)
       \<and> count_versions (revert_round_trip docId i userId s) docId =
           count_versions s docId
           + (if v_content (last (findAll_versions s docId)) = content d then 0 else 1)
           + (if v_content (findAll_versions s docId ! nat i) = content d then 0 else 1)"
proof -
  let ?L = "findAll_versions s docId"
  let ?ci = "v_content (?L ! nat i)"
  let ?s1 = "written_store docId d userId ?ci s"
  let ?d1 = "written_doc docId d userId ?ci s"
  let ?L1 = "findAll_versions ?s1 docId"
  have ne: "?L \<noteq> []"
    using lo hi by (auto simp add: count_versions_def)
  have r1: "post_revert docId (Some i) userId s = (?s1, Inr ?d1)"
    by (rule post_revert_applied [OF d a lo hi])
  have L1: "?L1 = ?L @ appended_on_change s docId d userId"
    by (rule findAll_written)
  have ne1: "?L1 \<noteq> []"
    using ne by (simp add: L1)
  have last1: "v_content (last ?L1) = content d"
    unfolding L1 by (rule last_content_appended [OF ne])
  let ?last = "int (count_versions ?s1 docId) - 1"
  have lo1: "0 \<le> ?last" and hi1: "?last < int (count_versions ?s1 docId)"
    using ne1 by (simp_all add: count_versions_def Suc_leI)
  have nth1: "?L1 ! nat ?last = last ?L1"
    using ne1 by (simp add: count_versions_def last_conv_nth nat_diff_distrib')
  have d1: "documents ?s1 docId = Some ?d1"
    by simp
  have a1: "hasAccess ?d1 userId"
    using a by simp
  have r2: "post_revert docId (Some ?last) userId ?s1 =
              (written_store docId ?d1 userId (content d) ?s1,
               Inr (written_doc docId ?d1 userId (content d) ?s1))"
    using post_revert_applied [OF d1 a1 lo1 hi1] by (simp add: nth1 last1)
  have rt: "revert_round_trip docId i userId s = written_store docId ?d1 userId (content d) ?s1"
    by (simp add: revert_round_trip_def r1 r2 Let_def)
  have n2: "count_versions (written_store docId ?d1 userId (content d) ?s1) docId =
              length ?L1 + length (appended_on_change ?s1 docId ?d1 userId)"
    by (simp add: count_versions_def findAll_written)
  have app2: "length (appended_on_change ?s1 docId ?d1 userId) = (if ?ci = content d then 0 else 1)"
    using ne1 last1 by (auto simp add: length_appended)
  have app1: "length (appended_on_change s docId d userId) =
                (if v_content (last ?L) = content d then 0 else 1)"
    using ne by (simp add: length_appended)
  have cnt: "count_versions (revert_round_trip docId i userId s) docId =
               count_versions s docId
               + (if v_content (last ?L) = content d then 0 else 1)
               + (if ?ci = content d then 0 else 1)"
  proof -
    have "count_versions (revert_round_trip docId i userId s) docId =
            length ?L1 + length (appended_on_change ?s1 docId ?d1 userId)"
      by (simp only: rt n2)
    also have "\<dots> = length ?L + length (appended_on_change s docId d userId)
                     + length (appended_on_change ?s1 docId ?d1 userId)"
      by (simp only: L1 length_append)
    also have "\<dots> = count_versions s docId
                     + (if v_content (last ?L) = content d then 0 else 1)
                     + (if ?ci = content d then 0 else 1)"
      by (simp only: app1 app2 count_versions_def)
    finally show ?thesis .
  qed
  have cont: "map_option content (documents (revert_round_trip docId i userId s) docId) =
                Some (content d)"
    unfolding rt by simp
  have held: "last (ledger (fst (post_revert docId (Some i) userId s)) docId) = content d"
    using ne1 last1 by (simp add: r1 ledger_def last_map)
  from held cont cnt show ?thesis
    by blast
qed

text \<open>
  From \<open>store_v2\<close> (ledger \<^verbatim>\<open>v0, v1\<close>, live \<^verbatim>\<open>v2\<close>) the round trip through index 0 brings
  \<^verbatim>\<open>v2\<close> back and the ledger grows from two entries to four.
\<close>

theorem revert_round_trip_restores_witness:
  "count_versions store_v2 0 = 2
 \<and> last (ledger (fst (post_revert 0 (Some 0) 7 store_v2)) 0) = ''v2''
 \<and> map_option content (documents (revert_round_trip 0 0 7 store_v2) 0) = Some ''v2''
 \<and> count_versions (revert_round_trip 0 0 7 store_v2) 0 = 4"
proof -
  have i: "(0::int) \<le> 0" "(0::int) < int (count_versions store_v2 0)"
    by (simp_all add: count_examples)
  have L: "findAll_versions store_v2 0 = [ver0 ''v0'', ver0 ''v1'']"
    by (simp add: findAll_versions_def store_v2_eq ver0_def)
  from revert_round_trip_restores [OF documents_examples(3) hasAccess_doc0 i] L count_examples(3)
  show ?thesis
    by (simp add: ver0_def)
qed

text \<open>
  Round trips that add fewer than two versions. On the new document \<open>store_v0\<close> both
  reverts find the live content in the last entry and add nothing. From \<open>store_r2\<close>
  (ledger \<^verbatim>\<open>v0, v1, v0\<close>, live \<^verbatim>\<open>v0\<close>) the round trip through index 1 changes the
  content to \<^verbatim>\<open>v1\<close> and back to \<^verbatim>\<open>v0\<close>, and the ledger grows from three entries to four.
\<close>

theorem revert_round_trip_counterexample:
  "count_versions store_v0 0 = 1
 \<and> count_versions (revert_round_trip 0 0 7 store_v0) 0 = 1
 \<and> map_option content (documents (revert_round_trip 0 0 7 store_v0) 0) = Some ''v0''
 \<and> count_versions store_r2 0 = 3
 \<and> map_option content (documents store_r2 0) = Some ''v0''
 \<and> map_option content (documents (fst (post_revert 0 (Some 1) 7 store_r2)) 0) = Some ''v1''
 \<and> map_option content (documents (revert_round_trip 0 1 7 store_r2) 0) = Some ''v0''
 \<and> ledger (revert_round_trip 0 1 7 store_r2) 0 = [''v0'', ''v1'', ''v0'', ''v1'']
 \<and> count_versions (revert_round_trip 0 1 7 store_r2) 0 = 4"
proof -
  have a: "revert_round_trip 0 0 7 store_v0 =
             \<lparr>documents = [0 \<mapsto> doc0 ''v0'' 1], document_versions = [ver0 ''v0''], next_id = 1\<rparr>"
    by (simp add: revert_round_trip_def store_v0_eq handler_defs doc0_def ver0_def Let_def)
  have b1: "fst (post_revert 0 (Some 1) 7 store_r2) =
              \<lparr>documents = [0 \<mapsto> doc0 ''v1'' 3],
               document_versions = [ver0 ''v0'', ver0 ''v1'', ver0 ''v0''], next_id = 1\<rparr>"
    by (simp add: store_r2_eq handler_defs doc0_def ver0_def Let_def numeral_3_eq_3)
  have b2: "revert_round_trip 0 1 7 store_r2 =
              \<lparr>documents = [0 \<mapsto> doc0 ''v0'' 4],
               document_versions = [ver0 ''v0'', ver0 ''v1'', ver0 ''v0'', ver0 ''v1''],
               next_id = 1\<rparr>"
    unfolding revert_round_trip_def b1 Let_def
    by (simp add: handler_defs doc0_def ver0_def Let_def eval_nat_numeral)
  show ?thesis
    using count_examples(1,5) documents_examples(5)
    by (simp add: a b1 b2 count_versions_def ledger_def findAll_versions_def ver0_def)
qed

text \<open>
  C6. A revert whose index is negative, or at least the number of versions of the
  document, fails and leaves the store as it was: the content, the version counter and
  the version table are those of before the call. For an existing document (and, in
  the guarded route, a user who may write) the failure is 400 \<^verbatim>\<open>Invalid version index\<close>.
\<close>

theorem revert_out_of_range:
  assumes "index < 0 \<or> int (count_versions s docId) \<le> index"
  shows "fst (post_revert docId (Some index) userId s) = s
       \<and> isl (snd (post_revert docId (Some index) userId s))
       \<and> fst (post_revert_open docId (Some index) userId s) = s
       \<and> isl (snd (post_revert_open docId (Some index) userId s))
       \<and> (documents s docId = Some d \<and> hasAccess d userId \<longrightarrow>
            post_revert docId (Some index) userId s = (s, Inl OutOfRange))
       \<and> (documents s docId = Some d \<longrightarrow>
            post_revert_open docId (Some index) userId s = (s, Inl OutOfRange))"
  using assms
  by (auto simp add: post_revert_def post_revert_open_def hasAccess_def count_versions_def
      Let_def split: option.splits)

theorem revert_out_of_range_witness:
  "count_versions store_v2 0 = 2
 \<and> post_revert 0 (Some 2) 7 store_v2 = (store_v2, Inl OutOfRange)
 \<and> post_revert_open 0 (Some 2) 7 store_v2 = (store_v2, Inl OutOfRange)
 \<and> post_revert 0 (Some (- 1)) 7 store_v2 = (store_v2, Inl OutOfRange)
 \<and> post_revert_open 0 (Some (- 1)) 7 store_v2 = (store_v2, Inl OutOfRange)"
proof -
  have hi: "(2::int) < 0 \<or> int (count_versions store_v2 0) \<le> 2"
    by (simp add: count_examples)
  have lo: "(- 1::int) < 0 \<or> int (count_versions store_v2 0) \<le> - 1"
    by simp
  from revert_out_of_range [OF hi, of 7 "doc0 ''v2'' 2"]
       revert_out_of_range [OF lo, of 7 "doc0 ''v2'' 2"]
       documents_examples(3) count_examples(3)
  show ?thesis
    by simp
qed

section \<open>Facts about the socket server\<close>

subsection \<open>Maps as lists\<close>

lemma map_of_Map_set: "map_of (Map_set k v m) k' = (if k' = k then Some v else map_of m k')"
  by (induction m) auto

lemma map_of_Map_delete: "map_of (Map_delete k m) k' = (if k' = k then None else map_of m k')"
  by (induction m) (auto simp add: Map_delete_def)

lemma fst_set_Map_set: "fst ` set (Map_set k v m) = insert k (fst ` set m)"
  by (induction m) auto

lemma distinct_Map_set: "distinct (map fst m) \<Longrightarrow> distinct (map fst (Map_set k v m))"
  by (induction m) (auto simp add: fst_set_Map_set)

lemma distinct_Map_delete: "distinct (map fst m) \<Longrightarrow> distinct (map fst (Map_delete k m))"
  by (simp add: Map_delete_def distinct_map_filter)

lemma list_all_Map_set: "list_all P m \<Longrightarrow> P (k, v) \<Longrightarrow> list_all P (Map_set k v m)"
  by (induction m) auto

lemma list_all_Map_delete: "list_all P m \<Longrightarrow> list_all P (Map_delete k m)"
  by (simp add: Map_delete_def list_all_iff)

lemma Map_set_middle:
  "k \<notin> fst ` set pre \<Longrightarrow> Map_set k v (pre @ (k, w) # m) = pre @ (k, v) # m"
  by (induction pre) auto

lemma Map_delete_absent: "k \<notin> fst ` set m \<Longrightarrow> Map_delete k m = m"
  by (induction m) (auto simp add: Map_delete_def)

lemma Map_delete_middle:
  "k \<notin> fst ` set pre \<Longrightarrow> k \<notin> fst ` set m \<Longrightarrow> Map_delete k (pre @ (k, w) # m) = pre @ m"
  using Map_delete_absent [of k pre] Map_delete_absent [of k m]
  by (simp add: Map_delete_def)

subsection \<open>Rooms without a user\<close>

lemma fst_set_rooms_without: "fst ` set (rooms_without u m) \<subseteq> fst ` set m"
  by (induction u m rule: rooms_without.induct) auto

lemma distinct_rooms_without: "distinct (map fst m) \<Longrightarrow> distinct (map fst (rooms_without u m))"
proof (induction u m rule: rooms_without.induct)
  case (1 u)
  then show ?case by simp
next
  case (2 u docId users m)
  have "docId \<notin> fst ` set (rooms_without u m)"
    using "2.prems" fst_set_rooms_without [of u m] by auto
  with 2 show ?case
    by auto
qed

lemma list_all_rooms_without:
  "list_all (\<lambda>p. snd p \<noteq> []) m \<Longrightarrow> list_all (\<lambda>p. snd p \<noteq> []) (rooms_without u m)"
  by (induction u m rule: rooms_without.induct) auto

lemma rooms_without_absent: "(docId, users) \<in> set (rooms_without u m) \<Longrightarrow> u \<notin> set users"
  by (induction u m rule: rooms_without.induct) (auto split: if_splits)

lemma user_left_events_removeAll:
  "user_left_events sock (\<lambda>room. removeAll (socket_id sock) (rooms room)) m =
     user_left_events sock rooms m"
  by (induction sock rooms m rule: user_left_events.induct) auto

subsection \<open>The two loops of the disconnect handler\<close>

lemma disconnect_timers_frame:
  "documentRooms (disconnect_timers u es s) = documentRooms s
 \<and> sent (disconnect_timers u es s) = sent s
 \<and> adapter_rooms (disconnect_timers u es s) = adapter_rooms s
 \<and> db (disconnect_timers u es s) = db s"
  by (induction u es s rule: disconnect_timers.induct) (auto simp add: clearTimeout_def)

lemma disconnect_rooms_effect:
  assumes "documentRooms s = pre @ es" and "distinct (map fst (pre @ es))"
  shows "documentRooms (disconnect_rooms sock es s) = pre @ rooms_without (socket_userId sock) es
       \<and> sent (disconnect_rooms sock es s) = sent s @ user_left_events sock (adapter_rooms s) es
       \<and> adapter_rooms (disconnect_rooms sock es s) = adapter_rooms s
       \<and> db (disconnect_rooms sock es s) = db s"
  using assms
proof (induction es arbitrary: s pre)
  case Nil
  then show ?case by simp
next
  case (Cons e es)
  obtain docId users where e: "e = (docId, users)"
    by (cases e)
  let ?u = "socket_userId sock"
  have fresh: "docId \<notin> fst ` set pre" "docId \<notin> fst ` set es"
    using Cons.prems(2) by (auto simp add: e)
  show ?case
  proof (cases "?u \<in> set users")
    case False
    have "documentRooms s = (pre @ [e]) @ es" and "distinct (map fst ((pre @ [e]) @ es))"
      using Cons.prems by simp_all
    from Cons.IH [OF this] False show ?thesis
      by (simp add: e)
  next
    case True
    define users' where "users' = removeAll ?u users"
    define kept where "kept = (if users' = [] then [] else [(docId, users')])"
    define s2 where
      "s2 = socket_to_emit sock docId (User_left ?u docId)
              (s\<lparr>documentRooms := Map_set docId users' (documentRooms s)\<rparr>)"
    define s3 where
      "s3 = (if length users' = 0 then s2\<lparr>documentRooms := Map_delete docId (documentRooms s2)\<rparr>
             else s2)"
    have step: "disconnect_rooms sock (e # es) s = disconnect_rooms sock es s3"
      using True by (simp add: e Let_def s3_def s2_def users'_def)
    have rooms3: "documentRooms s3 = (pre @ kept) @ es"
      using fresh Cons.prems(1)
      by (simp add: s3_def s2_def kept_def e Map_set_middle Map_delete_middle socket_to_emit_def)
    have dist: "distinct (map fst ((pre @ kept) @ es))"
      using Cons.prems(2) by (auto simp add: e kept_def)
    have sent3: "sent s3 =
                   sent s @ [(removeAll (socket_id sock) (adapter_rooms s docId), User_left ?u docId)]"
      by (simp add: s3_def s2_def socket_to_emit_def)
    have other: "adapter_rooms s3 = adapter_rooms s" "db s3 = db s"
      by (simp_all add: s3_def s2_def socket_to_emit_def)
    have split: "rooms_without ?u (e # es) = kept @ rooms_without ?u es"
      using True by (simp add: e kept_def users'_def)
    have events: "user_left_events sock (adapter_rooms s) (e # es) =
                    (removeAll (socket_id sock) (adapter_rooms s docId), User_left ?u docId)
                    # user_left_events sock (adapter_rooms s) es"
      using True by (simp add: e)
    from Cons.IH [OF rooms3 dist] show ?thesis
      unfolding step split events by (simp add: sent3 other)
  qed
qed

lemma disconnect_effect:
  assumes "distinct (map fst (documentRooms s))"
  shows "documentRooms (disconnect sock s) = rooms_without (socket_userId sock) (documentRooms s)
       \<and> sent (disconnect sock s) =
           sent s @ user_left_events sock (adapter_rooms s) (documentRooms s)
       \<and> db (disconnect sock s) = db s"
proof -
  define s0 where
    "s0 = s\<lparr>adapter_rooms := (\<lambda>room. removeAll (socket_id sock) (adapter_rooms s room))\<rparr>"
  define s1 where "s1 = disconnect_timers (socket_userId sock) (autoSaveTimers s0) s0"
  have d: "disconnect sock s = disconnect_rooms sock (documentRooms s1) s1"
    by (simp add: disconnect_def s1_def s0_def Let_def)
  have f: "documentRooms s1 = documentRooms s" "sent s1 = sent s" "db s1 = db s"
    "adapter_rooms s1 = (\<lambda>room. removeAll (socket_id sock) (adapter_rooms s room))"
    using disconnect_timers_frame [of "socket_userId sock" "autoSaveTimers s0" s0]
    by (simp_all add: s1_def [symmetric]) (simp_all add: s0_def)
  have "documentRooms s1 = [] @ documentRooms s1" and "distinct (map fst ([] @ documentRooms s1))"
    using assms by (simp_all add: f)
  from disconnect_rooms_effect [OF this, of sock] show ?thesis
    by (simp add: d f user_left_events_removeAll)
qed

subsection \<open>Leaving a room\<close>

lemma documentRooms_leave:
  "documentRooms (leave_document sock docId s) =
     (case map_of (documentRooms s) docId of
        None \<Rightarrow> documentRooms s
      | Some users \<Rightarrow>
          if removeAll (socket_userId sock) users = [] then Map_delete docId (documentRooms s)
          else Map_set docId (removeAll (socket_userId sock) users) (documentRooms s))"
  by (simp add: leave_document_def socket_to_emit_def Let_def split: option.splits)

lemma sent_leave:
  "sent (leave_document sock docId s) =
     sent s @ [(removeAll (socket_id sock) (adapter_rooms s docId),
                User_left (socket_userId sock) docId)]"
  by (simp add: leave_document_def socket_to_emit_def Let_def split: option.splits)

lemma members_leave:
  "room_members (leave_document sock docId s) docId' =
     (if docId' = docId then removeAll (socket_userId sock) (room_members s docId)
      else room_members s docId')"
  by (simp add: room_members_def documentRooms_leave map_of_Map_set map_of_Map_delete
      split: option.splits)

lemma rooms_ok_leave: "rooms_ok s \<Longrightarrow> rooms_ok (leave_document sock docId s)"
  by (simp add: rooms_ok_def documentRooms_leave distinct_Map_set distinct_Map_delete
      list_all_Map_set list_all_Map_delete split: option.splits)

lemma Set_add_nonempty: "Set_add x xs \<noteq> []"
  by (auto simp add: Set_add_def)

lemma documentRooms_join:
  "documentRooms (join_document sock docId s) = documentRooms s
 \<or> documentRooms (join_document sock docId s) =
     Map_set docId (Set_add (socket_userId sock) (room_members s docId)) (documentRooms s)"
  by (simp add: join_document_def socket_emit_def socket_to_emit_def room_members_def Let_def
      split: option.splits)

lemma rooms_ok_join:
  assumes "rooms_ok s"
  shows "rooms_ok (join_document sock docId s)"
proof -
  have "rooms_ok (s\<lparr>documentRooms :=
          Map_set docId (Set_add (socket_userId sock) (room_members s docId)) (documentRooms s)\<rparr>)"
    using assms by (simp add: rooms_ok_def distinct_Map_set list_all_Map_set Set_add_nonempty)
  with assms documentRooms_join [of sock docId s] show ?thesis
    by (auto simp add: rooms_ok_def)
qed

lemma rooms_ok_start: "rooms_ok (server_start st)"
  by (simp add: rooms_ok_def server_start_def)

lemma members_disconnect:
  assumes "distinct (map fst (documentRooms s))"
  shows "socket_userId sock \<notin> set (room_members (disconnect sock s) docId)"
proof (cases "map_of (documentRooms (disconnect sock s)) docId")
  case None
  then show ?thesis
    by (simp add: room_members_def)
next
  case (Some users)
  then have "(docId, users) \<in> set (rooms_without (socket_userId sock) (documentRooms s))"
    using disconnect_effect [OF assms, of sock] by (simp add: map_of_SomeD)
  then have "socket_userId sock \<notin> set users"
    by (rule rooms_without_absent)
  with Some show ?thesis
    by (simp add: room_members_def)
qed

subsection \<open>Edits and their timeouts\<close>

lemma pending_after_change:
  assumes "tracked (docId, socket_userId sock) s"
  shows "pending_for (docId, socket_userId sock) (document_change now sock docId c cur s) =
           [\<lparr>ps_documentId = docId, ps_content = c, ps_userId = socket_userId sock,
             ps_due = now + 2000\<rparr>]
       \<and> tracked (docId, socket_userId sock) (document_change now sock docId c cur s)"
proof (cases "map_of (autoSaveTimers s) (docId, socket_userId sock)")
  case None
  with assms show ?thesis
    by (simp add: tracked_def pending_for_def document_change_def socket_to_emit_def
        setTimeout_def map_of_Map_set Let_def)
next
  case (Some h)
  let ?mine = "\<lambda>q. (ps_documentId (snd q), ps_userId (snd q)) = (docId, socket_userId sock)"
  have all: "list_all (\<lambda>q. fst q = h) (filter ?mine (timers s))"
    using assms Some by (simp add: tracked_def)
  have "filter ?mine (filter (\<lambda>q. fst q \<noteq> h) (timers s)) = []"
    using all by (fastforce simp add: filter_empty_conv list_all_iff)
  with Some show ?thesis
    by (simp add: tracked_def pending_for_def document_change_def socket_to_emit_def
        setTimeout_def clearTimeout_def map_of_Map_set Let_def)
qed

text \<open>
  As long as the pair stays tracked, a burst of edits leaves one scheduled save, which
  carries the content of the last edit and is due two seconds after it.
\<close>

lemma burst_leaves_one_pending:
  assumes "tracked (docId, socket_userId sock) s" and "edits \<noteq> []"
  shows "pending_for (docId, socket_userId sock) (type_edits sock docId edits s) =
           [\<lparr>ps_documentId = docId, ps_content = snd (last edits),
             ps_userId = socket_userId sock, ps_due = fst (last edits) + 2000\<rparr>]"
  using assms
proof (induction edits arbitrary: s)
  case Nil
  then show ?case by simp
next
  case (Cons e edits)
  obtain now c where e: "e = (now, c)"
    by (cases e)
  note one = pending_after_change [OF Cons.prems(1), of now c 0]
  show ?case
  proof (cases "edits = []")
    case True
    with one show ?thesis
      by (simp add: e)
  next
    case False
    from one have "tracked (docId, socket_userId sock) (document_change now sock docId c 0 s)"
      by simp
    from Cons.IH [OF this False] False show ?thesis
      by (simp add: e)
  qed
qed

lemma tracked_start: "tracked k (server_start st)"
  by (simp add: tracked_def server_start_def pending_for_def)

section \<open>The access check\<close>

text \<open>
  C7, as the code has it, for a document that exists. Joining the room, the update
  route and the revert route of the guarded route file answer \<^verbatim>\<open>Access denied\<close> exactly
  when the user is neither the owner nor a collaborator, and \<open>saveDocumentToDB\<close>
  fails exactly then. For such a user none of these, nor the explicit save, nor the save
  of a timeout that fires, changes the rooms or the store; the explicit save answers
  its own socket with \<^verbatim>\<open>Failed to save document\<close>. The \<^verbatim>\<open>document-change\<close> handler makes
  no check for anyone: the edit is relayed to the other sockets of the room and a save
  is scheduled, with the rooms and the store untouched. (The open route file makes no
  check at all.)
\<close>

theorem access_denied_without_effects:
  assumes "documents (db s) docId = Some d"
  shows "(last (sent (join_document sock docId s)) =
            ([socket_id sock], Error_event ''Access denied'' None)) =
           (ownerId d \<noteq> Some (socket_userId sock)
            \<and> socket_userId sock \<notin> set (collaborators d))
       \<and> (snd (put_document docId c (socket_userId sock) (db s)) = Inl AccessDenied) =
           (ownerId d \<noteq> Some (socket_userId sock)
            \<and> socket_userId sock \<notin> set (collaborators d))
       \<and> (snd (post_revert docId i (socket_userId sock) (db s)) = Inl AccessDenied) =
           (ownerId d \<noteq> Some (socket_userId sock)
            \<and> socket_userId sock \<notin> set (collaborators d))
       \<and> isl (snd (saveDocumentToDB docId c (socket_userId sock) e (db s))) =
           (ownerId d \<noteq> Some (socket_userId sock)
            \<and> socket_userId sock \<notin> set (collaborators d))
       \<and> (ownerId d \<noteq> Some (socket_userId sock)
            \<and> socket_userId sock \<notin> set (collaborators d) \<longrightarrow>
              join_document sock docId s =
                socket_emit sock (Error_event ''Access denied'' None) s
            \<and> documentRooms (join_document sock docId s) = documentRooms s
            \<and> adapter_rooms (join_document sock docId s) = adapter_rooms s
            \<and> db (join_document sock docId s) = db s
            \<and> fst (saveDocumentToDB docId c (socket_userId sock) e (db s)) = db s
            \<and> db (save_document sock docId c s) = db s
            \<and> documentRooms (save_document sock docId c s) = documentRooms s
            \<and> (\<exists>err. sent (save_document sock docId c s) =
                   sent s @ [([socket_id sock],
                              Error_event ''Failed to save document'' (Some err))])
            \<and> (map_of (timers s) h = Some p \<and> ps_documentId p = docId
                 \<and> ps_userId p = socket_userId sock \<longrightarrow>
                   db (timer_fires h s) = db s
                 \<and> documentRooms (timer_fires h s) = documentRooms s
                 \<and> sent (timer_fires h s) = sent s)
            \<and> put_document docId c (socket_userId sock) (db s) = (db s, Inl AccessDenied)
            \<and> post_revert docId i (socket_userId sock) (db s) = (db s, Inl AccessDenied))
       \<and> db (document_change now sock docId c cur s) = db s
       \<and> documentRooms (document_change now sock docId c cur s) = documentRooms s
       \<and> sent (document_change now sock docId c cur s) =
           sent s @ [(removeAll (socket_id sock) (adapter_rooms s docId),
                      Document_update c (socket_userId sock) cur now)]
       \<and> map_of (autoSaveTimers (document_change now sock docId c cur s))
             (docId, socket_userId sock) = Some (next_timer s)
       \<and> (next_timer s,
            \<lparr>ps_documentId = docId, ps_content = c, ps_userId = socket_userId sock,
             ps_due = now + 2000\<rparr>)
           \<in> set (timers (document_change now sock docId c cur s))"
proof -
  let ?u = "socket_userId sock"
  let ?out = "ownerId d \<noteq> Some ?u \<and> ?u \<notin> set (collaborators d)"
  have who: "?out = (\<not> hasAccess d ?u)"
    by (simp add: hasAccess_def)
  have join_iff: "(last (sent (join_document sock docId s)) =
                     ([socket_id sock], Error_event ''Access denied'' None)) = ?out"
    using assms
    by (simp add: who join_document_def socket_emit_def socket_to_emit_def Let_def)
  have put_iff: "(snd (put_document docId c ?u (db s)) = Inl AccessDenied) = ?out"
    using assms by (auto simp add: put_document_def split_beta Let_def)
  have revert_iff: "(snd (post_revert docId i ?u (db s)) = Inl AccessDenied) = ?out"
    using assms by (auto simp add: post_revert_def split_beta Let_def split: option.splits)
  have save_iff: "isl (snd (saveDocumentToDB docId c ?u e (db s))) = ?out"
    using assms by (simp add: who saveDocumentToDB_def split_beta Let_def)
  have denied: "join_document sock docId s =
                  socket_emit sock (Error_event ''Access denied'' None) s
       \<and> documentRooms (join_document sock docId s) = documentRooms s
       \<and> adapter_rooms (join_document sock docId s) = adapter_rooms s
       \<and> db (join_document sock docId s) = db s
       \<and> fst (saveDocumentToDB docId c ?u e (db s)) = db s
       \<and> db (save_document sock docId c s) = db s
       \<and> documentRooms (save_document sock docId c s) = documentRooms s
       \<and> (\<exists>err. sent (save_document sock docId c s) =
              sent s @ [([socket_id sock], Error_event ''Failed to save document'' (Some err))])
       \<and> (map_of (timers s) h = Some p \<and> ps_documentId p = docId \<and> ps_userId p = ?u \<longrightarrow>
              db (timer_fires h s) = db s
            \<and> documentRooms (timer_fires h s) = documentRooms s
            \<and> sent (timer_fires h s) = sent s)
       \<and> put_document docId c ?u (db s) = (db s, Inl AccessDenied)
       \<and> post_revert docId i ?u (db s) = (db s, Inl AccessDenied)"
    if out: ?out
  proof -
    have no: "\<not> hasAccess d ?u"
      using out by (simp add: who)
    have save: "saveDocumentToDB docId c' ?u e' (db s) = (db s, Inl RollbackRefused)" for c' e'
      using assms no by (simp add: saveDocumentToDB_def)
    have join: "join_document sock docId s =
                  socket_emit sock (Error_event ''Access denied'' None) s"
      using assms no by (simp add: join_document_def)
    have explicit: "db (save_document sock docId c s) = db s
         \<and> documentRooms (save_document sock docId c s) = documentRooms s
         \<and> sent (save_document sock docId c s) =
             sent s @ [([socket_id sock],
                        Error_event ''Failed to save document'' (Some RollbackRefused))]"
      using assms no
      by (cases "map_of (autoSaveTimers s) (docId, ?u)")
         (simp_all add: save_document_def saveDocumentToDB_def clearTimeout_def socket_emit_def
          Let_def)
    have fires: "db (timer_fires h s) = db s
         \<and> documentRooms (timer_fires h s) = documentRooms s
         \<and> sent (timer_fires h s) = sent s"
      if "map_of (timers s) h = Some p" and "ps_documentId p = docId" and "ps_userId p = ?u"
      using that save [of "ps_content p" False]
      by (simp add: timer_fires_def clearTimeout_def Let_def)
    have routes: "put_document docId c ?u (db s) = (db s, Inl AccessDenied)"
      "post_revert docId i ?u (db s) = (db s, Inl AccessDenied)"
      using assms no by (simp_all add: put_document_def post_revert_def denied_iff)
    show ?thesis
      using fires explicit by (simp add: join save routes socket_emit_def)
  qed
  have relay: "db (document_change now sock docId c cur s) = db s
       \<and> documentRooms (document_change now sock docId c cur s) = documentRooms s
       \<and> sent (document_change now sock docId c cur s) =
           sent s @ [(removeAll (socket_id sock) (adapter_rooms s docId),
                      Document_update c ?u cur now)]
       \<and> map_of (autoSaveTimers (document_change now sock docId c cur s)) (docId, ?u) =
           Some (next_timer s)
       \<and> (next_timer s,
            \<lparr>ps_documentId = docId, ps_content = c, ps_userId = ?u, ps_due = now + 2000\<rparr>)
           \<in> set (timers (document_change now sock docId c cur s))"
    by (cases "map_of (autoSaveTimers s) (docId, ?u)")
       (simp_all add: document_change_def socket_to_emit_def setTimeout_def clearTimeout_def
        map_of_Map_set Let_def)
  from join_iff put_iff revert_iff save_iff denied relay show ?thesis
    by blast
qed

text \<open>
  User 8 and the shared document 0, in the session of users 7 and 9. User 8 is denied
  everywhere, and the edit of user 8 still reaches the sockets 10 and 12 of the room.
\<close>

theorem access_denied_without_effects_witness:
  "documents (db two_users) 0 = Some ((doc0 ''v1'' 1)\<lparr>collaborators := [9]\<rparr>)
 \<and> last (sent (join_document stranger 0 two_users)) = ([13], Error_event ''Access denied'' None)
 \<and> last (sent (join_document guest 0 two_users)) \<noteq> ([12], Error_event ''Access denied'' None)
 \<and> documentRooms (join_document stranger 0 two_users) = documentRooms two_users
 \<and> db (join_document stranger 0 two_users) = db two_users
 \<and> isl (snd (saveDocumentToDB 0 ''spam'' 8 False (db two_users)))
 \<and> fst (saveDocumentToDB 0 ''spam'' 8 False (db two_users)) = db two_users
 \<and> db (save_document stranger 0 ''spam'' two_users) = db two_users
 \<and> documentRooms (save_document stranger 0 ''spam'' two_users) = documentRooms two_users
 \<and> put_document 0 ''spam'' 8 (db two_users) = (db two_users, Inl AccessDenied)
 \<and> post_revert 0 (Some 0) 8 (db two_users) = (db two_users, Inl AccessDenied)
 \<and> snd (put_document 0 ''spam'' 9 (db two_users)) \<noteq> Inl AccessDenied
 \<and> db (document_change 0 stranger 0 ''spam'' 0 two_users) = db two_users
 \<and> sent (document_change 0 stranger 0 ''spam'' 0 two_users) =
     sent two_users @ [([10, 12], Document_update ''spam'' 8 0 0)]"
proof -
  let ?d = "(doc0 ''v1'' 1)\<lparr>collaborators := [9]\<rparr>"
  have doc: "documents (db two_users) 0 = Some ?d"
    and adapter: "adapter_rooms two_users 0 = [10, 12]"
    by (simp_all add: two_users_def join_document_def server_start_def socket_emit_def
        socket_to_emit_def store_shared_def hasAccess_def doc0_def tab1_def guest_def
        Set_add_def Let_def)
  have out: "ownerId ?d \<noteq> Some (socket_userId stranger)
             \<and> socket_userId stranger \<notin> set (collaborators ?d)"
    by (simp add: doc0_def stranger_def)
  have inside: "\<not> (ownerId ?d \<noteq> Some (socket_userId guest)
                   \<and> socket_userId guest \<notin> set (collaborators ?d))"
    by (simp add: doc0_def guest_def)
  let ?p = "\<lparr>ps_documentId = 0, ps_content = ''spam'', ps_userId = 8, ps_due = 2000\<rparr>"
  from access_denied_without_effects [OF doc, where sock = stranger and c = "''spam''"
         and i = "Some 0" and e = False and h = 0 and p = ?p and now = 0 and cur = 0]
       access_denied_without_effects [OF doc, where sock = guest and c = "''spam''"
         and i = "Some 0" and e = False and h = 0 and p = ?p and now = 0 and cur = 0]
       doc adapter out inside
  show ?thesis
    by (simp add: stranger_def guest_def socket_emit_def)
qed

text \<open>
  What the claim does not cover. In the open route file user 8 updates document 0 of
  \<open>store_v1\<close> and reverts document 0 of \<open>store_v2\<close>; both succeed and add a version
  attributed to user 8. The save of user 8 fails, but not with \<^verbatim>\<open>Access denied\<close>. And
  the edit of user 8 is relayed to the room of users 7 and 9.
\<close>

theorem open_routes_unguarded_counterexample:
  "documents store_v1 0 = Some (doc0 ''v1'' 1)
 \<and> \<not> hasAccess (doc0 ''v1'' 1) 8
 \<and> snd (put_document_open 0 ''spam'' 8 store_v1) = Inr (doc0 ''spam'' 2)
 \<and> document_versions (fst (put_document_open 0 ''spam'' 8 store_v1)) =
     [ver0 ''v0'', \<lparr>v_documentId = 0, v_content = ''v1'', v_updatedById = 8\<rparr>]
 \<and> documents store_v2 0 = Some (doc0 ''v2'' 2)
 \<and> \<not> hasAccess (doc0 ''v2'' 2) 8
 \<and> snd (post_revert_open 0 (Some 0) 8 store_v2) = Inr (doc0 ''v0'' 3)
 \<and> document_versions (fst (post_revert_open 0 (Some 0) 8 store_v2)) =
     [ver0 ''v0'', ver0 ''v1'', \<lparr>v_documentId = 0, v_content = ''v2'', v_updatedById = 8\<rparr>]
 \<and> snd (saveDocumentToDB 0 ''spam'' 8 False store_v1) = Inl RollbackRefused
 \<and> snd (saveDocumentToDB 0 ''spam'' 8 False store_v1) \<noteq> Inl AccessDenied
 \<and> adapter_rooms two_users 0 = [10, 12]
 \<and> sent (document_change 0 stranger 0 ''spam'' 0 two_users) =
     sent two_users @ [([10, 12], Document_update ''spam'' 8 0 0)]"
proof -
  have adapter: "adapter_rooms two_users 0 = [10, 12]"
    by (simp add: two_users_def join_document_def server_start_def socket_emit_def
        socket_to_emit_def store_shared_def hasAccess_def doc0_def tab1_def guest_def
        Set_add_def Let_def)
  have relay: "sent (document_change 0 stranger 0 ''spam'' 0 two_users) =
                 sent two_users @ [([10, 12], Document_update ''spam'' 8 0 0)]"
    by (cases "map_of (autoSaveTimers two_users) (0, socket_userId stranger)")
       (simp_all add: document_change_def socket_to_emit_def setTimeout_def clearTimeout_def
        adapter stranger_def Let_def)
  have routes: "snd (put_document_open 0 ''spam'' 8 store_v1) = Inr (doc0 ''spam'' 2)
     \<and> document_versions (fst (put_document_open 0 ''spam'' 8 store_v1)) =
         [ver0 ''v0'', \<lparr>v_documentId = 0, v_content = ''v1'', v_updatedById = 8\<rparr>]
     \<and> snd (post_revert_open 0 (Some 0) 8 store_v2) = Inr (doc0 ''v0'' 3)
     \<and> document_versions (fst (post_revert_open 0 (Some 0) 8 store_v2)) =
         [ver0 ''v0'', ver0 ''v1'', \<lparr>v_documentId = 0, v_content = ''v2'', v_updatedById = 8\<rparr>]
     \<and> snd (saveDocumentToDB 0 ''spam'' 8 False store_v1) = Inl RollbackRefused"
    by (simp add: store_v1_eq store_v2_eq handler_defs doc0_def ver0_def Let_def
        eval_nat_numeral)
  have no: "\<not> hasAccess (doc0 ''v1'' 1) 8" "\<not> hasAccess (doc0 ''v2'' 2) 8"
    by (simp_all add: hasAccess_def doc0_def)
  from routes no adapter relay documents_examples(2,3) show ?thesis
    by simp
qed

section \<open>Debounced saving\<close>

text \<open>
  C8 on the run \<open>race_edits\<close>. The callback of a timeout ends with
  \<^verbatim>\<open>autoSaveTimers.delete(timerKey)\<close>, after its \<^verbatim>\<open>await\<close>. An edit that arrives while
  the save is under way stores a new timeout under the key, and the callback then
  deletes that entry. The next edit finds no entry and clears nothing: after the edits
  \<^verbatim>\<open>b\<close> and \<^verbatim>\<open>c\<close>, 490 ms apart, two saves are scheduled for the same document and user,
  and only the later one is in \<^verbatim>\<open>autoSaveTimers\<close>. Both fire: \<^verbatim>\<open>b\<close> is written and then
  \<^verbatim>\<open>c\<close>, as the ledger \<^verbatim>\<open>v0, a, b\<close> under the live content \<^verbatim>\<open>c\<close> shows.
\<close>

theorem debounce_race_two_pending_saves:
  "map_option (\<lambda>s. map ps_content (pending_for (0, 7) s))
     (run 0 race_edits (server_start store_v0)) = Some [''b'', ''c'']
 \<and> map_option (\<lambda>s. autoSaveTimers s)
     (run 0 race_edits (server_start store_v0)) = Some [((0, 7), 2)]
 \<and> map_option (\<lambda>s. tracked (0, 7) s)
     (run 0 race_edits (server_start store_v0)) = Some False
 \<and> map_option (\<lambda>s. (ledger (db s) 0, map_option content (documents (db s) 0)))
     (run 0 race_edits (server_start store_v0)) = Some ([''v0''], Some ''a'')
 \<and> map_option (\<lambda>s. (ledger (db s) 0, map_option content (documents (db s) 0)))
     (run 0 (race_edits @ race_saves) (server_start store_v0)) =
     Some ([''v0'', ''a'', ''b''], Some ''c'')"
  by code_simp

section \<open>Presence\<close>

text \<open>
  C9, as the code has it. Presence is a set of user ids and nothing counts the
  connections of a user. When a socket leaves a room, its user is taken out of that
  room's set, whether or not another socket of the same user is still in the room;
  the other members of the room stay, and the other rooms are as they were. When a
  socket disconnects, its user is taken out of every room's set. The other sockets of
  the room are sent \<^verbatim>\<open>user-left\<close> (on disconnect: one event for every room that held the
  user). A set that becomes empty is dropped with its entry, so \<^verbatim>\<open>documentRooms\<close> never
  keeps an empty set.
\<close>

theorem leave_and_disconnect_presence:
  assumes "rooms_ok s"
  shows "room_members (leave_document sock docId s) docId' =
           (if docId' = docId then removeAll (socket_userId sock) (room_members s docId)
            else room_members s docId')
       \<and> socket_userId sock \<notin> set (room_members (leave_document sock docId s) docId)
       \<and> (removeAll (socket_userId sock) (room_members s docId) = [] \<longrightarrow>
            map_of (documentRooms (leave_document sock docId s)) docId = None)
       \<and> adapter_rooms (leave_document sock docId s) =
           (adapter_rooms s)(docId := removeAll (socket_id sock) (adapter_rooms s docId))
       \<and> sent (leave_document sock docId s) =
           sent s @ [(removeAll (socket_id sock) (adapter_rooms s docId),
                      User_left (socket_userId sock) docId)]
       \<and> rooms_ok (leave_document sock docId s)
       \<and> socket_userId sock \<notin> set (room_members (disconnect sock s) docId)
       \<and> documentRooms (disconnect sock s) =
           rooms_without (socket_userId sock) (documentRooms s)
       \<and> sent (disconnect sock s) =
           sent s @ user_left_events sock (adapter_rooms s) (documentRooms s)
       \<and> rooms_ok (disconnect sock s)"
proof -
  have dist: "distinct (map fst (documentRooms s))"
    using assms by (simp add: rooms_ok_def)
  note eff = disconnect_effect [OF dist, of sock]
  have ok: "rooms_ok (disconnect sock s)"
    using assms eff by (simp add: rooms_ok_def distinct_rooms_without list_all_rooms_without)
  have gone: "map_of (documentRooms (leave_document sock docId s)) docId = None"
    if "removeAll (socket_userId sock) (room_members s docId) = []"
    using that
    by (simp add: documentRooms_leave room_members_def map_of_Map_delete split: option.splits)
  have adapter: "adapter_rooms (leave_document sock docId s) =
                   (adapter_rooms s)(docId := removeAll (socket_id sock) (adapter_rooms s docId))"
    by (simp add: leave_document_def socket_to_emit_def Let_def split: option.splits)
  from eff ok gone adapter members_disconnect [OF dist, of sock docId]
    rooms_ok_leave [OF assms, of sock docId]
  show ?thesis
    by (simp add: members_leave sent_leave)
qed

text \<open>
  Users 7 and 9 are in the room of document 0. User 7 disconnects: the room holds user
  9 alone and socket 12 is sent one \<^verbatim>\<open>user-left\<close>. Then user 9 leaves: the entry is gone.
  Had user 7 left instead of disconnecting, the room would hold user 9 just the same.
\<close>

theorem leave_and_disconnect_presence_witness:
  "rooms_ok two_users
 \<and> documentRooms two_users = [(0, [7, 9])]
 \<and> room_members (leave_document tab1 0 two_users) 0 = [9]
 \<and> documentRooms (disconnect tab1 two_users) = [(0, [9])]
 \<and> sent (disconnect tab1 two_users) = sent two_users @ [([12], User_left 7 0)]
 \<and> rooms_ok (disconnect tab1 two_users)
 \<and> room_members (leave_document guest 0 (disconnect tab1 two_users)) 0 = []
 \<and> map_of (documentRooms (leave_document guest 0 (disconnect tab1 two_users))) 0 = None
 \<and> documentRooms (leave_document guest 0 (disconnect tab1 two_users)) = []
 \<and> rooms_ok (leave_document guest 0 (disconnect tab1 two_users))"
proof -
  have ok: "rooms_ok two_users"
    unfolding two_users_def by (intro rooms_ok_join rooms_ok_start)
  have rooms: "documentRooms two_users = [(0, [7, 9])]"
    and adapter: "adapter_rooms two_users 0 = [10, 12]"
    by (simp_all add: two_users_def join_document_def server_start_def socket_emit_def
        socket_to_emit_def store_shared_def hasAccess_def doc0_def tab1_def guest_def
        Set_add_def Let_def)
  have members: "room_members two_users 0 = [7, 9]"
    by (simp add: room_members_def rooms)
  note left = leave_and_disconnect_presence [OF ok, where sock = tab1 and docId = 0
    and docId' = 0]
  then have ok1: "rooms_ok (disconnect tab1 two_users)"
    by simp
  have rooms1: "documentRooms (disconnect tab1 two_users) = [(0, [9])]"
    using left by (simp add: rooms tab1_def)
  have members1: "room_members (disconnect tab1 two_users) 0 = [9]"
    by (simp add: room_members_def rooms1)
  have gone: "documentRooms (leave_document guest 0 (disconnect tab1 two_users)) = []"
    by (simp add: documentRooms_leave rooms1 guest_def Map_delete_def)
  from left leave_and_disconnect_presence [OF ok1, where sock = guest and docId = 0
      and docId' = 0]
    ok rooms adapter members rooms1 members1 gone
  show ?thesis
    by (simp add: tab1_def guest_def)
qed

text \<open>
  User 7 has joined document 0 from two tabs. The first tab leaves: the entry of the
  room is dropped, so user 7 is no longer present, while the second tab is still in the
  room of the adapter (and is told that user 7 has left).
\<close>

theorem second_tab_presence_counterexample:
  "documentRooms two_tabs = [(0, [7])]
 \<and> adapter_rooms two_tabs 0 = [10, 11]
 \<and> documentRooms (leave_document tab1 0 two_tabs) = []
 \<and> room_members (leave_document tab1 0 two_tabs) 0 = []
 \<and> adapter_rooms (leave_document tab1 0 two_tabs) 0 = [11]
 \<and> sent (leave_document tab1 0 two_tabs) = sent two_tabs @ [([11], User_left 7 0)]
 \<and> documentRooms (disconnect tab1 two_tabs) = []"
proof -
  have rooms: "documentRooms two_tabs = [(0, [7])]"
    and adapter: "adapter_rooms two_tabs 0 = [10, 11]"
    by (simp_all add: two_tabs_def join_document_def server_start_def socket_emit_def
        socket_to_emit_def store_v1_eq hasAccess_def doc0_def tab1_def tab2_def
        Set_add_def Let_def)
  have "documentRooms (disconnect tab1 two_tabs) = []"
    using disconnect_effect [of two_tabs tab1] by (simp add: rooms tab1_def)
  moreover have "adapter_rooms (leave_document tab1 0 two_tabs) 0 = [11]"
    by (simp add: leave_document_def socket_to_emit_def adapter tab1_def Let_def
        split: option.splits)
  ultimately show ?thesis
    using rooms adapter
    by (simp add: documentRooms_leave sent_leave room_members_def tab1_def Map_delete_def)
qed

section \<open>The explicit save of unchanged content\<close>

text \<open>
  C10. When \<^verbatim>\<open>save-document\<close> carries the content that the document already has (and the
  user may write), \<open>saveDocumentToDB\<close> returns without a write: the store is as it
  was. The handler still emits \<^verbatim>\<open>document-saved\<close> to every socket of the room, the
  saver's own socket included when it is in the room, and the event carries the
  version counter as it stands.
\<close>

theorem unchanged_explicit_save_is_announced:
  assumes "documents (db s) docId = Some d" and "hasAccess d (socket_userId sock)"
    and "content d = c"
  shows "saveDocumentToDB docId c (socket_userId sock) True (db s) = (db s, Inr None)
       \<and> db (save_document sock docId c s) = db s
       \<and> sent (save_document sock docId c s) =
           sent s @ [(adapter_rooms s docId, Document_saved docId (currentVersion d))]
       \<and> (socket_id sock \<in> set (adapter_rooms s docId) \<longrightarrow>
            socket_id sock \<in> set (fst (last (sent (save_document sock docId c s)))))"
proof -
  have ret: "saveDocumentToDB docId c (socket_userId sock) True (db s) = (db s, Inr None)"
    using assms by (simp add: saveDocumentToDB_def)
  have "db (save_document sock docId c s) = db s
      \<and> sent (save_document sock docId c s) =
          sent s @ [(adapter_rooms s docId, Document_saved docId (currentVersion d))]"
    using assms
    by (cases "map_of (autoSaveTimers s) (docId, socket_userId sock)")
       (simp_all add: save_document_def saveDocumentToDB_def clearTimeout_def io_to_emit_def
        Let_def)
  with ret show ?thesis
    by simp
qed

theorem unchanged_explicit_save_is_announced_witness:
  "documents (db two_users) 0 = Some ((doc0 ''v1'' 1)\<lparr>collaborators := [9]\<rparr>)
 \<and> adapter_rooms two_users 0 = [10, 12]
 \<and> db (save_document tab1 0 ''v1'' two_users) = db two_users
 \<and> sent (save_document tab1 0 ''v1'' two_users) =
     sent two_users @ [([10, 12], Document_saved 0 1)]
 \<and> socket_id tab1 \<in> set (fst (last (sent (save_document tab1 0 ''v1'' two_users))))"
proof -
  let ?d = "(doc0 ''v1'' 1)\<lparr>collaborators := [9]\<rparr>"
  have doc: "documents (db two_users) 0 = Some ?d"
    and adapter: "adapter_rooms two_users 0 = [10, 12]"
    by (simp_all add: two_users_def join_document_def server_start_def socket_emit_def
        socket_to_emit_def store_shared_def hasAccess_def doc0_def tab1_def guest_def
        Set_add_def Let_def)
  have yes: "hasAccess ?d (socket_userId tab1)" and same: "content ?d = ''v1''"
    by (simp_all add: hasAccess_def doc0_def tab1_def)
  from unchanged_explicit_save_is_announced [OF doc yes same] doc adapter
  show ?thesis
    by (simp add: tab1_def doc0_def)
qed

end
